theory Spec2Isabelle
  imports Main "HOL-Library.Word" "HOL-Library.Sublist"
begin

unbundle bit_operations_syntax

section \<open>Primitive types of the switch simulator\<close>

text \<open>
  \<^verbatim>\<open>common/types.h\<close>: \<^verbatim>\<open>port_id_t\<close> and \<^verbatim>\<open>vlan_id_t\<close> are 16-bit,
  \<^verbatim>\<open>ipv4_addr_t\<close> is a 32-bit integer, \<^verbatim>\<open>mac_addr_t\<close> is a struct of six bytes.
  Pointers to opaque objects (\<^verbatim>\<open>void *\<close>, function pointers) are natural numbers,
  \<open>0\<close> being \<^verbatim>\<open>NULL\<close>.
\<close>

type_synonym u8 = "8 word"
type_synonym u16 = "16 word"
type_synonym u32 = "32 word"
type_synonym u64 = "64 word"
type_synonym port_id_t = u16
type_synonym vlan_id_t = u16
type_synonym ipv4_addr_t = u32
type_synonym mac_addr_t = "u8 list"
type_synonym pointer = nat

text \<open>
  The values of \<^verbatim>\<open>status_t\<close> that the modelled functions return.
  \<^verbatim>\<open>ERROR_INVALID_PARAMETER\<close> is a macro for \<^verbatim>\<open>STATUS_INVALID_PARAMETER\<close>;
  \<^verbatim>\<open>ERROR_PACKET_OPERATION_FAILED\<close> (-214) and \<^verbatim>\<open>ARP_STATUS_PENDING\<close>
  (0x00010001) are integer macros returned through the same type.
\<close>

datatype status_t =
    STATUS_SUCCESS
  | STATUS_NOT_INITIALIZED
  | STATUS_ALREADY_INITIALIZED
  | STATUS_NOT_FOUND
  | STATUS_INVALID_PARAMETER
  | STATUS_MEMORY_ALLOCATION_FAILED
  | STATUS_RESOURCE_EXHAUSTED
  | STATUS_RESOURCE_UNAVAILABLE
  | STATUS_NO_MEMORY
  | STATUS_OUT_OF_BOUNDS
  | STATUS_OUT_OF_MEMORY
  | STATUS_INSUFFICIENT_RESOURCES
  | STATUS_INVALID_PACKET
  | STATUS_INVALID_PORT
  | ERROR_PACKET_ALLOCATION_FAILED
  | ERROR_PACKET_OPERATION_FAILED
  | ARP_STATUS_PENDING
  | ARP_STATUS_CACHE_MISS

abbreviation ERROR_INVALID_PARAMETER :: status_t where
  "ERROR_INVALID_PARAMETER \<equiv> STATUS_INVALID_PARAMETER"

text \<open>
  A C function either returns or runs into undefined behaviour. The only undefined
  behaviour the model tracks is a \<^verbatim>\<open>memcpy\<close>, \<^verbatim>\<open>memmove\<close>, \<^verbatim>\<open>memset\<close> or array
  access that leaves the block it was given.
\<close>

datatype 'a outcome = Undefined_Behaviour | Returns 'a

section \<open>Memory blocks\<close>

text \<open>
  A heap block is the list of its bytes; its length is the size that was requested from
  \<^verbatim>\<open>malloc\<close>. The allocator is a parameter: it says whether a request is granted and
  what the uninitialised bytes of a fresh block hold.
\<close>

record heap_t =
  grants_struct :: bool
  grants :: "nat \<Rightarrow> bool"
  junk :: "nat \<Rightarrow> u8"

definition malloc :: "heap_t \<Rightarrow> nat \<Rightarrow> u8 list option" where
  "malloc h n = (if grants h n then Some (map (junk h) [0..<n]) else None)"

definition realloc :: "heap_t \<Rightarrow> u8 list \<Rightarrow> nat \<Rightarrow> u8 list option" where
  "realloc h blk n =
     (if grants h n then Some (take n blk @ map (junk h) [length blk..<n]) else None)"

definition mem_read :: "u8 list \<Rightarrow> nat \<Rightarrow> nat \<Rightarrow> u8 list option" where
  "mem_read blk off n = (if off + n \<le> length blk then Some (take n (drop off blk)) else None)"

definition mem_write :: "u8 list \<Rightarrow> nat \<Rightarrow> u8 list \<Rightarrow> u8 list option" where
  "mem_write blk off bytes =
     (if off + length bytes \<le> length blk
      then Some (take off blk @ bytes @ drop (off + length bytes) blk) else None)"

text \<open>\<^verbatim>\<open>memmove(blk + dst, blk + src, n)\<close> inside one block.\<close>

definition mem_move :: "u8 list \<Rightarrow> nat \<Rightarrow> nat \<Rightarrow> nat \<Rightarrow> u8 list option" where
  "mem_move blk dst src n =
     (case mem_read blk src n of
        None \<Rightarrow> None
      | Some bytes \<Rightarrow> mem_write blk dst bytes)"

section \<open>Packet buffers (\<^verbatim>\<open>hal/packet.h\<close>, \<^verbatim>\<open>hal/packet.c\<close>)\<close>

definition MAX_PACKET_SIZE :: u32 where
  "MAX_PACKET_SIZE = 9216"

definition PORT_ID_INVALID :: port_id_t where
  "PORT_ID_INVALID = NOT 0 - 2"

datatype packet_direction_t =
  PACKET_DIR_RX | PACKET_DIR_TX | PACKET_DIR_INTERNAL | PACKET_DIR_INVALID

record packet_metadata_t =
  port :: port_id_t
  direction :: packet_direction_t
  vlan :: vlan_id_t
  cos_priority :: u8
  src_mac :: mac_addr_t
  dst_mac :: mac_addr_t
  ethertype :: u16
  is_tagged :: bool
  is_dropped :: bool
  timestamp :: u32

text \<open>
  \<^verbatim>\<open>packet_buffer_t\<close>. The field \<open>size_p\<close> is the anonymous union of \<^verbatim>\<open>length\<close> and
  \<^verbatim>\<open>size\<close>; \<open>data\<close> is \<^verbatim>\<open>NULL\<close> (\<open>None\<close>) or the heap block it points to.
\<close>

record packet_buffer_t =
  data :: "u8 list option"
  size_p :: u32
  capacity :: u32
  metadata :: packet_metadata_t
  user_data_p :: pointer

datatype packet_result_t =
  PACKET_RESULT_FORWARD | PACKET_RESULT_DROP | PACKET_RESULT_CONSUME | PACKET_RESULT_RECIRCULATE

definition MAX_PACKET_PROCESSORS :: nat where
  "MAX_PACKET_PROCESSORS = 64"

record packet_processor_t =
  callback :: pointer
  priority :: u32
  user_data :: pointer
  active :: bool

text \<open>
  The file-scope variables of \<^verbatim>\<open>packet.c\<close>, with the function-local static
  \<^verbatim>\<open>recursion_depth\<close> of \<^verbatim>\<open>packet_process\<close>. The spin lock is left out: the model is
  sequential.
\<close>

record packet_globals =
  g_processors :: "packet_processor_t list"
  g_processor_count :: u32
  g_initialized :: bool
  recursion_depth :: int

definition packet_buffer_is_valid :: "packet_buffer_t option \<Rightarrow> bool" where
  "packet_buffer_is_valid packet =
     (case packet of
        None \<Rightarrow> False
      | Some p \<Rightarrow> \<not> (data p = None \<or> size_p p > capacity p))"

text \<open>The metadata after \<^verbatim>\<open>memset(packet, 0, ...)\<close> and the five default assignments.\<close>

definition default_metadata :: packet_metadata_t where
  "default_metadata =
     \<lparr> port = PORT_ID_INVALID, direction = PACKET_DIR_INVALID, vlan = 0, cos_priority = 0,
       src_mac = replicate 6 0, dst_mac = replicate 6 0, ethertype = 0,
       is_tagged = False, is_dropped = False, timestamp = 0 \<rparr>"

definition packet_buffer_alloc ::
  "packet_globals \<Rightarrow> heap_t \<Rightarrow> u32 \<Rightarrow> packet_buffer_t option" where
  "packet_buffer_alloc g h sz =
     (if \<not> g_initialized g then None
      else if sz = 0 then None
      else if \<not> grants_struct h then None
      else case malloc h (unat sz) of
             None \<Rightarrow> None
           | Some blk \<Rightarrow>
               Some \<lparr> data = Some blk, size_p = 0, capacity = sz,
                      metadata = default_metadata, user_data_p = 0 \<rparr>)"

definition packet_create ::
  "packet_globals \<Rightarrow> heap_t \<Rightarrow> bool \<Rightarrow> status_t \<times> packet_buffer_t option" where
  "packet_create g h out_pkt =
     (if \<not> out_pkt then (ERROR_INVALID_PARAMETER, None)
      else case packet_buffer_alloc g h MAX_PACKET_SIZE of
             None \<Rightarrow> (ERROR_PACKET_ALLOCATION_FAILED, None)
           | Some pkt \<Rightarrow> (STATUS_SUCCESS, Some pkt))"

text \<open>
  \<^verbatim>\<open>packet_reset\<close> returns nothing; the model returns the buffer as the call leaves it.
  The \<^verbatim>\<open>memset\<close> covers \<^verbatim>\<open>capacity\<close> bytes of the block. Of the metadata it assigns
  \<^verbatim>\<open>port\<close>, \<^verbatim>\<open>direction\<close>, \<^verbatim>\<open>timestamp\<close>, \<^verbatim>\<open>priority\<close> and \<^verbatim>\<open>vlan\<close>; the other fields keep
  their values.
\<close>

definition packet_reset ::
  "packet_globals \<Rightarrow> packet_buffer_t option \<Rightarrow> packet_buffer_t option outcome" where
  "packet_reset g packet =
     (if \<not> g_initialized g then Returns packet
      else case packet of
        None \<Rightarrow> Returns packet
      | Some p \<Rightarrow>
         (case data p of
            None \<Rightarrow> Returns packet
          | Some blk \<Rightarrow>
             (case mem_write blk 0 (replicate (unat (capacity p)) 0) of
                None \<Rightarrow> Undefined_Behaviour
              | Some blk' \<Rightarrow>
                  Returns (Some (p\<lparr> data := Some blk', size_p := 0,
                                    metadata := (metadata p)
                                      \<lparr> port := PORT_ID_INVALID, direction := PACKET_DIR_INVALID,
                                        timestamp := 0, cos_priority := 0, vlan := 0 \<rparr>,
                                    user_data_p := 0 \<rparr>)))))"

text \<open>
  \<^verbatim>\<open>packet_append_data(packet, data, length)\<close>: \<open>src\<close> is the object \<^verbatim>\<open>data\<close> points to
  (\<open>None\<close> for \<^verbatim>\<open>NULL\<close>). The capacity test adds two \<^verbatim>\<open>uint32_t\<close> and so wraps.
\<close>

definition packet_append_data ::
  "packet_globals \<Rightarrow> packet_buffer_t option \<Rightarrow> u8 list option \<Rightarrow> u32 \<Rightarrow>
     (status_t \<times> packet_buffer_t option) outcome" where
  "packet_append_data g packet src len =
     (if \<not> g_initialized g then Returns (ERROR_PACKET_OPERATION_FAILED, packet)
      else case packet of
        None \<Rightarrow> Returns (ERROR_INVALID_PARAMETER, packet)
      | Some p \<Rightarrow>
         (case data p of
            None \<Rightarrow> Returns (ERROR_INVALID_PARAMETER, packet)
          | Some blk \<Rightarrow>
             (case src of
                None \<Rightarrow> Returns (ERROR_INVALID_PARAMETER, packet)
              | Some s \<Rightarrow>
                  if len = 0 then Returns (STATUS_SUCCESS, packet)
                  else if size_p p + len > capacity p
                  then Returns (ERROR_PACKET_OPERATION_FAILED, packet)
                  else (case mem_read s 0 (unat len) of
                          None \<Rightarrow> Undefined_Behaviour
                        | Some bytes \<Rightarrow>
                           (case mem_write blk (unat (size_p p)) bytes of
                              None \<Rightarrow> Undefined_Behaviour
                            | Some blk' \<Rightarrow>
                                Returns (STATUS_SUCCESS,
                                  Some (p\<lparr> data := Some blk',
                                           size_p := size_p p + len \<rparr>)))))))"

text \<open>
  The read operations. \<open>byte\<close> and \<open>dest\<close> say whether the output pointer is non-null;
  the bytes stored through it are returned next to the status.
\<close>

definition packet_peek_byte ::
  "packet_globals \<Rightarrow> packet_buffer_t option \<Rightarrow> u32 \<Rightarrow> bool \<Rightarrow>
     (status_t \<times> u8 option) outcome" where
  "packet_peek_byte g packet offset byte =
     (if \<not> g_initialized g then Returns (ERROR_PACKET_OPERATION_FAILED, None)
      else case packet of
        None \<Rightarrow> Returns (ERROR_INVALID_PARAMETER, None)
      | Some p \<Rightarrow>
         (case data p of
            None \<Rightarrow> Returns (ERROR_INVALID_PARAMETER, None)
          | Some blk \<Rightarrow>
              if \<not> byte then Returns (ERROR_INVALID_PARAMETER, None)
              else if offset \<ge> size_p p then Returns (ERROR_PACKET_OPERATION_FAILED, None)
              else if unat offset < length blk
                   then Returns (STATUS_SUCCESS, Some (blk ! unat offset))
                   else Undefined_Behaviour))"

definition packet_peek_data ::
  "packet_globals \<Rightarrow> packet_buffer_t option \<Rightarrow> u32 \<Rightarrow> bool \<Rightarrow> u32 \<Rightarrow>
     (status_t \<times> u8 list option) outcome" where
  "packet_peek_data g packet offset dest len =
     (if \<not> g_initialized g then Returns (ERROR_PACKET_OPERATION_FAILED, None)
      else case packet of
        None \<Rightarrow> Returns (ERROR_INVALID_PARAMETER, None)
      | Some p \<Rightarrow>
         (case data p of
            None \<Rightarrow> Returns (ERROR_INVALID_PARAMETER, None)
          | Some blk \<Rightarrow>
              if \<not> dest then Returns (ERROR_INVALID_PARAMETER, None)
              else if offset + len > size_p p then Returns (ERROR_PACKET_OPERATION_FAILED, None)
              else (case mem_read blk (unat offset) (unat len) of
                      None \<Rightarrow> Undefined_Behaviour
                    | Some bytes \<Rightarrow> Returns (STATUS_SUCCESS, Some bytes))))"

definition packet_copy_data ::
  "packet_globals \<Rightarrow> packet_buffer_t option \<Rightarrow> u32 \<Rightarrow> bool \<Rightarrow> u32 \<Rightarrow>
     (status_t \<times> u8 list option) outcome" where
  "packet_copy_data g packet offset dest len =
     (if len = 0 then Returns (STATUS_SUCCESS, None)
      else packet_peek_data g packet offset dest len)"

text \<open>
  From here on a buffer has passed \<^verbatim>\<open>packet_buffer_is_valid\<close> before its block is
  touched; the branches for a null pointer are there because the cases must be total.
\<close>

definition packet_buffer_clone ::
  "packet_globals \<Rightarrow> heap_t \<Rightarrow> packet_buffer_t option \<Rightarrow> packet_buffer_t option outcome" where
  "packet_buffer_clone g h packet =
     (if \<not> g_initialized g then Returns None
      else if \<not> packet_buffer_is_valid packet then Returns None
      else case packet of
        None \<Rightarrow> Returns None
      | Some p \<Rightarrow>
         (case packet_buffer_alloc g h (capacity p) of
            None \<Rightarrow> Returns None
          | Some clone \<Rightarrow>
             (case (data p, data clone) of
                (Some blk, Some cblk) \<Rightarrow>
                  (case mem_read blk 0 (unat (size_p p)) of
                     None \<Rightarrow> Undefined_Behaviour
                   | Some bytes \<Rightarrow>
                      (case mem_write cblk 0 bytes of
                         None \<Rightarrow> Undefined_Behaviour
                       | Some blk' \<Rightarrow>
                           Returns (Some (clone\<lparr> data := Some blk', size_p := size_p p,
                                                 metadata := metadata p, user_data_p := 0 \<rparr>))))
              | _ \<Rightarrow> Undefined_Behaviour)))"

definition packet_buffer_resize ::
  "packet_globals \<Rightarrow> heap_t \<Rightarrow> packet_buffer_t option \<Rightarrow> u32 \<Rightarrow>
     status_t \<times> packet_buffer_t option" where
  "packet_buffer_resize g h packet new_size =
     (if \<not> g_initialized g then (STATUS_NOT_INITIALIZED, packet)
      else if \<not> packet_buffer_is_valid packet then (STATUS_INVALID_PARAMETER, packet)
      else case packet of
        None \<Rightarrow> (STATUS_INVALID_PARAMETER, packet)
      | Some p \<Rightarrow>
         (case data p of
            None \<Rightarrow> (STATUS_INVALID_PARAMETER, packet)
          | Some blk \<Rightarrow>
              if new_size = 0 then (STATUS_INVALID_PARAMETER, packet)
              else if new_size \<le> capacity p
              then (STATUS_SUCCESS, Some (p\<lparr> size_p := new_size \<rparr>))
              else (case realloc h blk (unat new_size) of
                      None \<Rightarrow> (STATUS_NO_MEMORY, packet)
                    | Some new_data \<Rightarrow>
                        (STATUS_SUCCESS,
                         Some (p\<lparr> data := Some new_data, capacity := new_size,
                                  size_p := new_size \<rparr>)))))"

text \<open>
  The second half of \<^verbatim>\<open>packet_insert\<close>: the shift of the tail, the copy of the new
  bytes and the store of \<^verbatim>\<open>new_size\<close>. The shift moves \<^verbatim>\<open>packet->size - offset\<close> bytes,
  with \<^verbatim>\<open>packet->size\<close> read at that moment.
\<close>

definition insert_shift_copy ::
  "packet_buffer_t \<Rightarrow> u32 \<Rightarrow> u8 list \<Rightarrow> u32 \<Rightarrow> u32 \<Rightarrow>
     (status_t \<times> packet_buffer_t option) outcome" where
  "insert_shift_copy p1 offset s sz new_size =
     (case data p1 of
        None \<Rightarrow> Undefined_Behaviour
      | Some blk \<Rightarrow>
         (case (if offset < size_p p1
                then mem_move blk (unat offset + unat sz) (unat offset)
                       (unat (size_p p1 - offset))
                else Some blk) of
            None \<Rightarrow> Undefined_Behaviour
          | Some blk1 \<Rightarrow>
             (case mem_read s 0 (unat sz) of
                None \<Rightarrow> Undefined_Behaviour
              | Some bytes \<Rightarrow>
                 (case mem_write blk1 (unat offset) bytes of
                    None \<Rightarrow> Undefined_Behaviour
                  | Some blk2 \<Rightarrow>
                      Returns (STATUS_SUCCESS,
                        Some (p1\<lparr> data := Some blk2, size_p := new_size \<rparr>))))))"

text \<open>
  \<^verbatim>\<open>packet_insert\<close>. When the new size exceeds the capacity the buffer is resized
  first, and \<^verbatim>\<open>packet_buffer_resize\<close> stores the new size in \<^verbatim>\<open>packet->size\<close> as well as
  in \<^verbatim>\<open>packet->capacity\<close>.
\<close>

definition packet_insert ::
  "packet_globals \<Rightarrow> heap_t \<Rightarrow> packet_buffer_t option \<Rightarrow> u32 \<Rightarrow> u8 list option \<Rightarrow> u32 \<Rightarrow>
     (status_t \<times> packet_buffer_t option) outcome" where
  "packet_insert g h packet offset src sz =
     (if \<not> g_initialized g then Returns (STATUS_NOT_INITIALIZED, packet)
      else if \<not> packet_buffer_is_valid packet \<or> src = None \<or> sz = 0
      then Returns (STATUS_INVALID_PARAMETER, packet)
      else case (packet, src) of
        (Some p, Some s) \<Rightarrow>
          if offset > size_p p then Returns (STATUS_OUT_OF_BOUNDS, packet)
          else if size_p p + sz > capacity p then
            (case packet_buffer_resize g h packet (size_p p + sz) of
               (status, packet1) \<Rightarrow>
                 if status \<noteq> STATUS_SUCCESS then Returns (status, packet1)
                 else (case packet1 of
                         None \<Rightarrow> Undefined_Behaviour
                       | Some p1 \<Rightarrow> insert_shift_copy p1 offset s sz (size_p p + sz)))
          else insert_shift_copy p offset s sz (size_p p + sz)
      | _ \<Rightarrow> Returns (STATUS_INVALID_PARAMETER, packet))"

definition packet_remove ::
  "packet_globals \<Rightarrow> packet_buffer_t option \<Rightarrow> u32 \<Rightarrow> u32 \<Rightarrow>
     (status_t \<times> packet_buffer_t option) outcome" where
  "packet_remove g packet offset sz =
     (if \<not> g_initialized g then Returns (STATUS_NOT_INITIALIZED, packet)
      else if \<not> packet_buffer_is_valid packet \<or> sz = 0
      then Returns (STATUS_INVALID_PARAMETER, packet)
      else case packet of
        None \<Rightarrow> Returns (STATUS_INVALID_PARAMETER, packet)
      | Some p \<Rightarrow>
          if offset + sz > size_p p then Returns (STATUS_OUT_OF_BOUNDS, packet)
          else
            (case data p of
               None \<Rightarrow> Undefined_Behaviour
             | Some blk \<Rightarrow>
                (case (if offset + sz < size_p p
                       then mem_move blk (unat offset) (unat offset + unat sz)
                              (unat (size_p p - (offset + sz)))
                       else Some blk) of
                   None \<Rightarrow> Undefined_Behaviour
                 | Some blk1 \<Rightarrow>
                     Returns (STATUS_SUCCESS,
                       Some (p\<lparr> data := Some blk1, size_p := size_p p - sz \<rparr>)))))"

section \<open>The processor registry and the pipeline (\<^verbatim>\<open>hal/packet.c\<close>)\<close>

text \<open>
  \<^verbatim>\<open>compare_processors\<close> returns \<^verbatim>\<open>(int)p1->priority - (int)p2->priority\<close>. The
  conversion of a \<^verbatim>\<open>uint32_t\<close> above \<^verbatim>\<open>INT_MAX\<close> keeps the bit pattern (as gcc and
  clang define it); the subtraction is taken modulo \<open>2^32\<close>, as the hardware computes
  it where C leaves the overflow undefined.
\<close>

definition compare_processors :: "packet_processor_t \<Rightarrow> packet_processor_t \<Rightarrow> int" where
  "compare_processors p1 p2 = sint (priority p1 - priority p2)"

text \<open>
  \<^verbatim>\<open>qsort\<close> is the C library's. Its contract fixes the result only up to the order of
  elements that compare equal. The model is the insertion sort driven by the comparator;
  it keeps elements that compare equal in their array order.
\<close>

fun qsort_insert :: "('a \<Rightarrow> 'a \<Rightarrow> int) \<Rightarrow> 'a \<Rightarrow> 'a list \<Rightarrow> 'a list" where
  "qsort_insert cmp x [] = [x]"
| "qsort_insert cmp x (y # ys) =
     (if cmp x y \<le> 0 then x # y # ys else y # qsort_insert cmp x ys)"

definition qsort :: "('a \<Rightarrow> 'a \<Rightarrow> int) \<Rightarrow> 'a list \<Rightarrow> 'a list" where
  "qsort cmp xs = foldr (qsort_insert cmp) xs []"

text \<open>\<^verbatim>\<open>qsort(g_processors, g_processor_count, ...)\<close>: the first \<^verbatim>\<open>g_processor_count\<close>
  array elements are sorted in place, the others stay.\<close>

definition sort_processors :: "packet_globals \<Rightarrow> packet_globals" where
  "sort_processors g =
     g\<lparr> g_processors :=
          qsort compare_processors (take (unat (g_processor_count g)) (g_processors g))
          @ drop (unat (g_processor_count g)) (g_processors g) \<rparr>"

definition empty_processor :: packet_processor_t where
  "empty_processor = \<lparr> callback = 0, priority = 0, user_data = 0, active = False \<rparr>"

definition packet_init :: "packet_globals \<Rightarrow> status_t \<times> packet_globals" where
  "packet_init g =
     (if g_initialized g then (STATUS_ALREADY_INITIALIZED, g)
      else (STATUS_SUCCESS,
            g\<lparr> g_processors := replicate MAX_PACKET_PROCESSORS empty_processor,
               g_processor_count := 0, g_initialized := True \<rparr>))"

text \<open>The loop \<^verbatim>\<open>for (slot = 0; slot < MAX_PACKET_PROCESSORS; slot++) if (!active) break;\<close>\<close>

fun find_unused_slot :: "packet_processor_t list \<Rightarrow> nat \<Rightarrow> nat" where
  "find_unused_slot [] slot = slot"
| "find_unused_slot (p # ps) slot =
     (if \<not> active p then slot else find_unused_slot ps (Suc slot))"

text \<open>
  \<^verbatim>\<open>packet_register_processor\<close>. If every array element is active the loop leaves
  \<^verbatim>\<open>slot = MAX_PACKET_PROCESSORS\<close> and the stores go past the array.
\<close>

definition packet_register_processor ::
  "packet_globals \<Rightarrow> pointer \<Rightarrow> u32 \<Rightarrow> pointer \<Rightarrow> bool \<Rightarrow>
     (status_t \<times> u32 option \<times> packet_globals) outcome" where
  "packet_register_processor g cb prio udata handle_out =
     (if \<not> g_initialized g then Returns (STATUS_NOT_INITIALIZED, None, g)
      else if cb = 0 then Returns (STATUS_INVALID_PARAMETER, None, g)
      else if \<not> handle_out then Returns (STATUS_INVALID_PARAMETER, None, g)
      else if unat (g_processor_count g) \<ge> MAX_PACKET_PROCESSORS
      then Returns (STATUS_RESOURCE_EXHAUSTED, None, g)
      else
        let slot = find_unused_slot (take MAX_PACKET_PROCESSORS (g_processors g)) 0 in
        if slot \<ge> length (g_processors g) then Undefined_Behaviour
        else
          let procs = (g_processors g)
                [slot := \<lparr> callback = cb, priority = prio, user_data = udata, active = True \<rparr>];
              count = (if of_nat slot \<ge> g_processor_count g then of_nat slot + 1
                       else g_processor_count g)
          in Returns (STATUS_SUCCESS, Some (of_nat slot),
                sort_processors (g\<lparr> g_processors := procs, g_processor_count := count \<rparr>)))"

text \<open>\<^verbatim>\<open>while (g_processor_count > 0 && !g_processors[g_processor_count - 1].active)
  g_processor_count--;\<close>\<close>

fun shrink_count :: "packet_processor_t list \<Rightarrow> nat \<Rightarrow> nat" where
  "shrink_count procs 0 = 0"
| "shrink_count procs (Suc n) =
     (if \<not> active (procs ! n) then shrink_count procs n else Suc n)"

definition packet_unregister_processor ::
  "packet_globals \<Rightarrow> u32 \<Rightarrow> status_t \<times> packet_globals" where
  "packet_unregister_processor g handle =
     (if \<not> g_initialized g then (STATUS_NOT_INITIALIZED, g)
      else if unat handle \<ge> MAX_PACKET_PROCESSORS then (STATUS_INVALID_PARAMETER, g)
      else if \<not> active (g_processors g ! unat handle) then (STATUS_INVALID_PARAMETER, g)
      else
        let procs = (g_processors g)
              [unat handle := (g_processors g ! unat handle)
                                \<lparr> active := False, callback := 0, user_data := 0 \<rparr>];
            count = (if handle = g_processor_count g - 1
                     then of_nat (shrink_count procs (unat (g_processor_count g)))
                     else g_processor_count g)
        in (STATUS_SUCCESS,
            sort_processors (g\<lparr> g_processors := procs, g_processor_count := count \<rparr>)))"

text \<open>
  A callback is a function pointer; \<open>code\<close> gives the function behind each pointer. It
  receives the packet and the registered \<^verbatim>\<open>user_data\<close> and returns its result with the
  packet as it leaves it. Every call is recorded with its result, in call order.
\<close>

type_synonym callbacks =
  "pointer \<Rightarrow> packet_buffer_t \<Rightarrow> pointer \<Rightarrow> packet_result_t \<times> packet_buffer_t"

type_synonym call_log = "(packet_processor_t \<times> packet_result_t) list"

text \<open>The \<^verbatim>\<open>for\<close> loop of \<^verbatim>\<open>packet_process\<close> over the local copy, up to its
  \<^verbatim>\<open>break\<close> or to the recirculation request.\<close>

fun process_loop ::
  "callbacks \<Rightarrow> packet_processor_t list \<Rightarrow> packet_buffer_t \<Rightarrow> packet_result_t \<Rightarrow>
     packet_result_t \<times> packet_buffer_t \<times> call_log" where
  "process_loop code [] pkt result = (result, pkt, [])"
| "process_loop code (p # ps) pkt result =
     (if active p \<and> callback p \<noteq> 0 then
        (case code (callback p) pkt (user_data p) of
           (r, pkt') \<Rightarrow>
             if r = PACKET_RESULT_CONSUME \<or> r = PACKET_RESULT_DROP then (r, pkt', [(p, r)])
             else if r = PACKET_RESULT_RECIRCULATE then (r, pkt', [(p, r)])
             else (case process_loop code ps pkt' r of
                     (r', pkt'', calls) \<Rightarrow> (r', pkt'', (p, r) # calls)))
      else process_loop code ps pkt result)"

text \<open>
  \<^verbatim>\<open>packet_process\<close>. The result carries the packet, the globals (with
  \<^verbatim>\<open>recursion_depth\<close>) and the calls made. The local copy holds the first
  \<^verbatim>\<open>g_processor_count\<close> array elements.
\<close>

function packet_process ::
  "packet_globals \<Rightarrow> callbacks \<Rightarrow> packet_buffer_t option \<Rightarrow>
     packet_result_t \<times> packet_buffer_t option \<times> packet_globals \<times> call_log" where
  "packet_process g code packet =
     (if \<not> g_initialized g then (PACKET_RESULT_DROP, packet, g, [])
      else if \<not> packet_buffer_is_valid packet then (PACKET_RESULT_DROP, packet, g, [])
      else
        let g1 = g\<lparr> recursion_depth := recursion_depth g + 1 \<rparr> in
        if recursion_depth g1 > 16
        then (PACKET_RESULT_DROP, packet, g1\<lparr> recursion_depth := recursion_depth g1 - 1 \<rparr>, [])
        else
          (case process_loop code (take (unat (g_processor_count g1)) (g_processors g1))
                  (the packet) PACKET_RESULT_FORWARD of
             (r, pkt', calls) \<Rightarrow>
               if r = PACKET_RESULT_RECIRCULATE then
                 (case packet_process g1 code (Some pkt') of
                    (r2, packet2, g2, calls2) \<Rightarrow>
                      (r2, packet2, g2\<lparr> recursion_depth := recursion_depth g2 - 1 \<rparr>,
                       calls @ calls2))
               else (r, Some pkt', g1\<lparr> recursion_depth := recursion_depth g1 - 1 \<rparr>, calls)))"
  by pat_completeness auto
termination
  by (relation "measure (\<lambda>(g, code, packet). nat (16 - recursion_depth g))") auto

declare packet_process.simps [simp del]

section \<open>The port layer that the packet and ARP code call\<close>

text \<open>
  \<^verbatim>\<open>port_is_valid\<close>, \<^verbatim>\<open>port_get_state\<close>, \<^verbatim>\<open>port_send_packet_ext\<close> (\<^verbatim>\<open>hal/port.c\<close>),
  \<^verbatim>\<open>hw_sim_transmit_packet\<close> (hardware simulation) and \<^verbatim>\<open>mac_table_add\<close> (\<^verbatim>\<open>l2/mac_table.c\<close>)
  are other modules; what they answer is a parameter. The platform also fixes what the
  C text leaves open: the allocator, the size of the unpacked \<^verbatim>\<open>arp_packet_t\<close>, and the
  contents of the locals \<^verbatim>\<open>our_ip\<close> and \<^verbatim>\<open>our_mac\<close>, which \<^verbatim>\<open>arp_send_request\<close> and
  \<^verbatim>\<open>arp_send_reply\<close> read without having written them.
\<close>

datatype port_state_t =
    PORT_STATE_DOWN | PORT_STATE_UP | PORT_STATE_LEARNING | PORT_STATE_FORWARDING
  | PORT_STATE_BLOCKING | PORT_STATE_TESTING | PORT_STATE_UNKNOWN

record platform =
  heap :: heap_t
  sizeof_arp_packet_t :: u32
  our_ip_local :: ipv4_addr_t
  our_mac_local :: mac_addr_t
  port_is_valid :: "port_id_t \<Rightarrow> bool"
  port_get_state :: "port_id_t \<Rightarrow> status_t \<times> port_state_t"
  hw_sim_transmit_packet :: "port_id_t \<Rightarrow> status_t"
  port_send_packet_ext :: "port_id_t \<Rightarrow> status_t"

text \<open>
  \<^verbatim>\<open>packet_transmit\<close>: the status, the packet with its metadata as the call leaves it,
  and whether the packet reached \<^verbatim>\<open>hw_sim_transmit_packet\<close>.
\<close>

definition packet_transmit ::
  "platform \<Rightarrow> packet_globals \<Rightarrow> packet_buffer_t option \<Rightarrow> port_id_t \<Rightarrow>
     status_t \<times> packet_buffer_t option \<times> bool" where
  "packet_transmit pl g packet port_id =
     (if \<not> g_initialized g then (STATUS_NOT_INITIALIZED, packet, False)
      else if \<not> packet_buffer_is_valid packet then (STATUS_INVALID_PARAMETER, packet, False)
      else if \<not> port_is_valid pl port_id then (STATUS_INVALID_PARAMETER, packet, False)
      else if fst (port_get_state pl port_id) \<noteq> STATUS_SUCCESS
      then (fst (port_get_state pl port_id), packet, False)
      else if snd (port_get_state pl port_id) \<noteq> PORT_STATE_UP
      then (STATUS_RESOURCE_UNAVAILABLE, packet, False)
      else
        let p = the packet;
            p' = p\<lparr> metadata := (metadata p)\<lparr> port := port_id, direction := PACKET_DIR_TX,
                                                timestamp := 0 \<rparr> \<rparr>
        in (hw_sim_transmit_packet pl port_id, Some p', True))"

section \<open>The ARP cache (\<^verbatim>\<open>l3/arp.c\<close>)\<close>

definition ARP_CACHE_SIZE :: nat where "ARP_CACHE_SIZE = 1024"
definition ARP_CACHE_TIMEOUT_SEC :: u32 where "ARP_CACHE_TIMEOUT_SEC = 1200"
definition ARP_REQUEST_RETRY_COUNT :: u8 where "ARP_REQUEST_RETRY_COUNT = 3"
definition ARP_REQUEST_RETRY_INTERVAL_MS :: nat where "ARP_REQUEST_RETRY_INTERVAL_MS = 1000"
definition ARP_HARDWARE_TYPE_ETHERNET :: u16 where "ARP_HARDWARE_TYPE_ETHERNET = 1"
definition ARP_PROTOCOL_TYPE_IPV4 :: u16 where "ARP_PROTOCOL_TYPE_IPV4 = 0x0800"
definition ARP_HARDWARE_SIZE_ETHERNET :: u8 where "ARP_HARDWARE_SIZE_ETHERNET = 6"
definition ARP_PROTOCOL_SIZE_IPV4 :: u8 where "ARP_PROTOCOL_SIZE_IPV4 = 4"
definition ARP_OP_REQUEST :: u16 where "ARP_OP_REQUEST = 1"
definition ARP_OP_REPLY :: u16 where "ARP_OP_REPLY = 2"
definition ETHERTYPE_ARP :: u16 where "ETHERTYPE_ARP = 0x0806"
definition VLAN_ID_DEFAULT :: vlan_id_t where "VLAN_ID_DEFAULT = 1"
definition sizeof_ethernet_header_t :: u32 where "sizeof_ethernet_header_t = 14"

text \<open>\<^verbatim>\<open>htons\<close> and \<^verbatim>\<open>ntohs\<close> on a little-endian host: the two bytes change places.\<close>

definition htons :: "u16 \<Rightarrow> u16" where
  "htons x = push_bit 8 x OR drop_bit 8 x"

definition ntohs :: "u16 \<Rightarrow> u16" where
  "ntohs x = htons x"

text \<open>\<^verbatim>\<open>arp_packet_t\<close> and \<^verbatim>\<open>ethernet_header_t\<close>, each field holding what the C field holds.\<close>

record arp_packet_t =
  hw_type :: u16
  protocol_type :: u16
  hw_addr_len :: u8
  proto_addr_len :: u8
  operation :: u16
  sender_mac :: mac_addr_t
  sender_ip :: ipv4_addr_t
  target_mac :: mac_addr_t
  target_ip :: ipv4_addr_t

record ethernet_header_t =
  eth_dst_mac :: mac_addr_t
  eth_src_mac :: mac_addr_t
  eth_ethertype :: u16

text \<open>
  The cast \<^verbatim>\<open>(const arp_packet_t *)packet->data\<close>. The structure is not packed (the
  attribute is commented out) and \<^verbatim>\<open>ipv4_addr_t\<close> is \<^verbatim>\<open>uint32_t\<close>, so two bytes of padding
  follow each MAC address: \<^verbatim>\<open>sender_mac\<close> is at offset 8, \<^verbatim>\<open>sender_ip\<close> at 16,
  \<^verbatim>\<open>target_mac\<close> at 20, \<^verbatim>\<open>target_ip\<close> at 28, and the size is 32. The integer fields
  are read in the byte order of the host, the low byte first, which is the host for
  which \<^verbatim>\<open>htons\<close> swaps the bytes. On such a platform \<open>sizeof_arp_packet_t\<close> is 32.
\<close>

definition host16 :: "u8 list \<Rightarrow> nat \<Rightarrow> u16" where
  "host16 bs i = ucast (bs ! i) OR push_bit 8 (ucast (bs ! (i + 1)))"

definition host32 :: "u8 list \<Rightarrow> nat \<Rightarrow> u32" where
  "host32 bs i =
     ucast (bs ! i) OR push_bit 8 (ucast (bs ! (i + 1))) OR
     push_bit 16 (ucast (bs ! (i + 2))) OR push_bit 24 (ucast (bs ! (i + 3)))"

definition arp_packet_view :: "u8 list \<Rightarrow> arp_packet_t" where
  "arp_packet_view bs =
     \<lparr> hw_type = host16 bs 0, protocol_type = host16 bs 2,
       hw_addr_len = bs ! 4, proto_addr_len = bs ! 5, operation = host16 bs 6,
       sender_mac = take 6 (drop 8 bs), sender_ip = host32 bs 16,
       target_mac = take 6 (drop 20 bs), target_ip = host32 bs 28 \<rparr>"

datatype arp_state_t =
    ARP_STATE_INCOMPLETE | ARP_STATE_REACHABLE | ARP_STATE_STALE
  | ARP_STATE_DELAY | ARP_STATE_PROBE | ARP_STATE_FAILED

text \<open>\<^verbatim>\<open>arp_entry_t\<close> without its \<^verbatim>\<open>next\<close> pointer: a hash chain is the list of its
  entries, head first.\<close>

record arp_entry_t =
  ip :: ipv4_addr_t
  mac :: mac_addr_t
  state :: arp_state_t
  created_time :: u32
  updated_time :: u32
  port_index :: u16
  retry_count :: u8

record arp_stats_t =
  requests_sent :: u64
  requests_received :: u64
  replies_sent :: u64
  replies_received :: u64
  cache_hits :: u64
  cache_misses :: u64
  cache_flushes :: u64
  cache_full_errors :: u64
  invalid_packets :: u64
  entries_added :: u64
  entries_removed :: u64
  entries_aged :: u64
  current_entries :: u64

text \<open>
  \<^verbatim>\<open>struct arp_table_s\<close>. \<open>hash_table t b\<close> is the chain of bucket \<open>b\<close>
  (\<open>b < ARP_CACHE_SIZE\<close>). The entry pool is not a field: every chained entry occupies
  one of its \<^verbatim>\<open>ARP_CACHE_SIZE\<close> elements, the others are free.
\<close>

record arp_table_t =
  hash_table :: "nat \<Rightarrow> arp_entry_t list"
  entry_count :: u16
  timeout :: u32
  initialized :: bool
  stats :: arp_stats_t

text \<open>
  What the ARP code reads and writes outside its arguments: the table \<^verbatim>\<open>g_arp_table\<close>,
  the counter behind \<^verbatim>\<open>get_current_time\<close>, the packet subsystem, and the calls that
  leave the module: frames that reached \<^verbatim>\<open>hw_sim_transmit_packet\<close>, ARP payloads given to
  \<^verbatim>\<open>port_send_packet_ext\<close>, and the arguments of \<^verbatim>\<open>mac_table_add\<close>.
\<close>

record arp_world =
  g_arp_table :: arp_table_t
  time_counter :: u32
  packet_state :: packet_globals
  transmitted :: "(port_id_t \<times> ethernet_header_t \<times> arp_packet_t) list"
  port_sent :: "(port_id_t \<times> mac_addr_t \<times> mac_addr_t \<times> u16 \<times> arp_packet_t) list"
  mac_table_added :: "(mac_addr_t \<times> port_id_t \<times> vlan_id_t \<times> bool) list"

definition get_current_time :: "arp_world \<Rightarrow> u32 \<times> arp_world" where
  "get_current_time w = (time_counter w, w\<lparr> time_counter := time_counter w + 1 \<rparr>)"

definition hash_ipv4 :: "ipv4_addr_t \<Rightarrow> u32" where
  "hash_ipv4 ipv4 =
     (let hash0 = ipv4;
          hash1 = (drop_bit 16 hash0 XOR hash0) * 0x45d9f3b;
          hash2 = (drop_bit 16 hash1 XOR hash1) * 0x45d9f3b
      in drop_bit 16 hash2 XOR hash2)"

definition bucket_of :: "ipv4_addr_t \<Rightarrow> nat" where
  "bucket_of ipv4 = unat (hash_ipv4 ipv4) mod ARP_CACHE_SIZE"

definition arp_find_entry :: "arp_table_t \<Rightarrow> ipv4_addr_t \<Rightarrow> arp_entry_t option" where
  "arp_find_entry t ipv4 = find (\<lambda>e. ip e = ipv4) (hash_table t (bucket_of ipv4))"

text \<open>The oldest-entry scan of \<^verbatim>\<open>arp_allocate_entry\<close>: buckets in order, each chain from
  its head; the accumulator holds \<^verbatim>\<open>oldest_time\<close> and where the oldest entry is.\<close>

fun scan_chain ::
  "arp_entry_t list \<Rightarrow> nat \<Rightarrow> nat \<Rightarrow> u32 \<times> (nat \<times> nat) option \<Rightarrow> u32 \<times> (nat \<times> nat) option"
  where
  "scan_chain [] b j acc = acc"
| "scan_chain (e # es) b j acc =
     scan_chain es b (Suc j)
       (if updated_time e < fst acc then (updated_time e, Some (b, j)) else acc)"

definition find_oldest :: "arp_table_t \<Rightarrow> u32 \<times> (nat \<times> nat) option" where
  "find_oldest t =
     fold (\<lambda>b acc. scan_chain (hash_table t b) b 0 acc) [0..<ARP_CACHE_SIZE] (- 1, None)"

definition linked_entries :: "arp_table_t \<Rightarrow> nat" where
  "linked_entries t = sum_list (map (\<lambda>b. length (hash_table t b)) [0..<ARP_CACHE_SIZE])"

text \<open>
  \<^verbatim>\<open>arp_allocate_entry\<close>: \<open>None\<close> for \<^verbatim>\<open>NULL\<close>, otherwise the table as the call leaves
  it; the entry it returns is zeroed and in no chain. With \<^verbatim>\<open>entry_count\<close> below the
  cache size it takes the first pool element that is in no chain, which exists when
  fewer than \<^verbatim>\<open>ARP_CACHE_SIZE\<close> entries are chained.
\<close>

definition arp_allocate_entry :: "arp_table_t \<Rightarrow> arp_table_t option" where
  "arp_allocate_entry t =
     (if unat (entry_count t) \<ge> ARP_CACHE_SIZE then
        (case snd (find_oldest t) of
           Some (b, j) \<Rightarrow>
             Some (t\<lparr> hash_table :=
                        (hash_table t)(b := take j (hash_table t b) @ drop (Suc j) (hash_table t b)),
                      entry_count := entry_count t - 1 \<rparr>)
         | None \<Rightarrow> None)
      else if linked_entries t < ARP_CACHE_SIZE then Some t else None)"

text \<open>
  \<^verbatim>\<open>arp_send_request\<close>. Every caller passes the table and a valid address; the status
  of the transmission is returned, and the frame is recorded when it reached the
  hardware simulation. The buffer is freed before the return.
\<close>

definition arp_send_request ::
  "platform \<Rightarrow> arp_world \<Rightarrow> ipv4_addr_t \<Rightarrow> u16 \<Rightarrow> status_t \<times> arp_world" where
  "arp_send_request pl w target port_idx =
     (let arp_packet =
            \<lparr> hw_type = htons ARP_HARDWARE_TYPE_ETHERNET,
              protocol_type = htons ARP_PROTOCOL_TYPE_IPV4,
              hw_addr_len = ARP_HARDWARE_SIZE_ETHERNET,
              proto_addr_len = ARP_PROTOCOL_SIZE_IPV4,
              operation = htons ARP_OP_REQUEST,
              sender_mac = our_mac_local pl, sender_ip = our_ip_local pl,
              target_mac = replicate 6 0, target_ip = target \<rparr>;
          total_size = sizeof_ethernet_header_t + sizeof_arp_packet_t pl
      in case packet_buffer_alloc (packet_state w) (heap pl) total_size of
           None \<Rightarrow> (STATUS_INSUFFICIENT_RESOURCES, w)
         | Some packet \<Rightarrow>
             let eth_header =
                   \<lparr> eth_dst_mac = replicate 6 0xFF, eth_src_mac = our_mac_local pl,
                     eth_ethertype = htons ETHERTYPE_ARP \<rparr>;
                 packet1 = packet\<lparr> size_p := total_size,
                             metadata := (metadata packet)\<lparr> port := port_idx,
                               direction := PACKET_DIR_TX, timestamp := 0 \<rparr> \<rparr>
             in case packet_transmit pl (packet_state w) (Some packet1) port_idx of
                  (status, _, reached) \<Rightarrow>
                    (status,
                     if reached
                     then w\<lparr> transmitted := transmitted w @ [(port_idx, eth_header, arp_packet)] \<rparr>
                     else w))"

definition arp_send_reply ::
  "platform \<Rightarrow> arp_world \<Rightarrow> ipv4_addr_t \<Rightarrow> mac_addr_t \<Rightarrow> ipv4_addr_t \<Rightarrow> u16 \<Rightarrow>
     status_t \<times> arp_world" where
  "arp_send_reply pl w target tmac sender port_idx =
     (let arp_packet =
            \<lparr> hw_type = htons ARP_HARDWARE_TYPE_ETHERNET,
              protocol_type = htons ARP_PROTOCOL_TYPE_IPV4,
              hw_addr_len = ARP_HARDWARE_SIZE_ETHERNET,
              proto_addr_len = ARP_PROTOCOL_SIZE_IPV4,
              operation = htons ARP_OP_REPLY,
              sender_mac = our_mac_local pl, sender_ip = sender,
              target_mac = tmac, target_ip = target \<rparr>
      in case packet_buffer_alloc (packet_state w) (heap pl) (sizeof_arp_packet_t pl) of
           None \<Rightarrow> (STATUS_MEMORY_ALLOCATION_FAILED, w)
         | Some packet \<Rightarrow>
             (port_send_packet_ext pl port_idx,
              w\<lparr> port_sent := port_sent w
                     @ [(port_idx, our_mac_local pl, tmac, ETHERTYPE_ARP, arp_packet)] \<rparr>))"

definition chain_insert :: "arp_table_t \<Rightarrow> arp_entry_t \<Rightarrow> arp_table_t" where
  "chain_insert t e =
     t\<lparr> hash_table := (hash_table t)(bucket_of (ip e) := e # hash_table t (bucket_of (ip e))),
        entry_count := entry_count t + 1 \<rparr>"

text \<open>The store through the pointer that \<^verbatim>\<open>arp_find_entry\<close> returned: the first entry of
  the chain with that address.\<close>

fun chain_update ::
  "ipv4_addr_t \<Rightarrow> (arp_entry_t \<Rightarrow> arp_entry_t) \<Rightarrow> arp_entry_t list \<Rightarrow> arp_entry_t list" where
  "chain_update ipv4 f [] = []"
| "chain_update ipv4 f (e # es) =
     (if ip e = ipv4 then f e # es else e # chain_update ipv4 f es)"

definition arp_add_entry ::
  "arp_world \<Rightarrow> ipv4_addr_t option \<Rightarrow> mac_addr_t option \<Rightarrow> u16 \<Rightarrow> status_t \<times> arp_world" where
  "arp_add_entry w ipv4 mac_arg port_idx =
     (case (ipv4, mac_arg) of
        (Some a, Some m) \<Rightarrow>
          if \<not> initialized (g_arp_table w) then (STATUS_NOT_INITIALIZED, w)
          else
            (case (case arp_find_entry (g_arp_table w) a of
                     Some entry \<Rightarrow>
                       (case get_current_time w of
                          (now, w1) \<Rightarrow>
                            Some (w1\<lparr> g_arp_table := (g_arp_table w1)
                                   \<lparr> hash_table := (hash_table (g_arp_table w1))
                                        (bucket_of a :=
                                           chain_update a
                                             (\<lambda>e. e\<lparr> mac := m, port_index := port_idx,
                                                      updated_time := now,
                                                      state := ARP_STATE_REACHABLE \<rparr>)
                                             (hash_table (g_arp_table w1) (bucket_of a))) \<rparr> \<rparr>))
                   | None \<Rightarrow>
                       (case arp_allocate_entry (g_arp_table w) of
                          None \<Rightarrow> None
                        | Some t1 \<Rightarrow>
                            (case get_current_time w of
                               (now, w1) \<Rightarrow>
                                 Some (w1\<lparr> g_arp_table :=
                                         chain_insert t1
                                           \<lparr> ip = a, mac = m, state = ARP_STATE_REACHABLE,
                                             created_time = now, updated_time = now,
                                             port_index = port_idx, retry_count = 0 \<rparr> \<rparr>)))) of
               None \<Rightarrow> (STATUS_RESOURCE_EXHAUSTED, w)
             | Some w2 \<Rightarrow>
                 (STATUS_SUCCESS,
                  w2\<lparr> mac_table_added := mac_table_added w2 @ [(m, port_idx, VLAN_ID_DEFAULT, False)],
                      g_arp_table := (g_arp_table w2)
                        \<lparr> stats := (stats (g_arp_table w2))
                             \<lparr> entries_added := entries_added (stats (g_arp_table w2)) + 1 \<rparr> \<rparr> \<rparr>))
      | _ \<Rightarrow> (STATUS_INVALID_PARAMETER, w))"

text \<open>
  \<^verbatim>\<open>arp_lookup\<close>: the status, what was stored through \<^verbatim>\<open>mac_result\<close> and
  \<^verbatim>\<open>port_index_result\<close>, and the world. The two flags say whether those pointers are
  non-null.
\<close>

definition arp_lookup ::
  "platform \<Rightarrow> arp_world \<Rightarrow> ipv4_addr_t option \<Rightarrow> bool \<Rightarrow> bool \<Rightarrow>
     status_t \<times> mac_addr_t option \<times> u16 option \<times> arp_world" where
  "arp_lookup pl w ipv4 mac_result port_index_result =
     (case ipv4 of
        None \<Rightarrow> (STATUS_INVALID_PARAMETER, None, None, w)
      | Some a \<Rightarrow>
          if \<not> mac_result then (STATUS_INVALID_PARAMETER, None, None, w)
          else if \<not> initialized (g_arp_table w) then (STATUS_NOT_INITIALIZED, None, None, w)
          else
            (case arp_find_entry (g_arp_table w) a of
               None \<Rightarrow>
                 (case arp_allocate_entry (g_arp_table w) of
                    None \<Rightarrow> (STATUS_RESOURCE_EXHAUSTED, None, None, w)
                  | Some t1 \<Rightarrow>
                      (case get_current_time w of
                         (now, w1) \<Rightarrow>
                           (case arp_send_request pl
                                   (w1\<lparr> g_arp_table :=
                                         chain_insert t1
                                           \<lparr> ip = a, mac = replicate 6 0,
                                             state = ARP_STATE_INCOMPLETE,
                                             created_time = now, updated_time = now,
                                             port_index = 0, retry_count = 0 \<rparr> \<rparr>) a 0 of
                              (_, w2) \<Rightarrow>
                                (ARP_STATUS_PENDING, None, None,
                                 w2\<lparr> g_arp_table := (g_arp_table w2)
                                       \<lparr> stats := (stats (g_arp_table w2))
                                            \<lparr> requests_sent :=
                                                requests_sent (stats (g_arp_table w2)) + 1 \<rparr> \<rparr> \<rparr>))))
             | Some entry \<Rightarrow>
                 if state entry \<noteq> ARP_STATE_REACHABLE \<and> state entry = ARP_STATE_INCOMPLETE
                 then (ARP_STATUS_PENDING, None, None, w)
                 else if state entry \<noteq> ARP_STATE_REACHABLE \<and> state entry = ARP_STATE_FAILED
                 then (STATUS_NOT_FOUND, None, None, w)
                 else
                   (STATUS_SUCCESS, Some (mac entry),
                    (if port_index_result then Some (port_index entry) else None),
                    w\<lparr> g_arp_table := (g_arp_table w)
                          \<lparr> stats := (stats (g_arp_table w))
                               \<lparr> cache_hits := cache_hits (stats (g_arp_table w)) + 1 \<rparr> \<rparr> \<rparr>)))"

text \<open>
  \<^verbatim>\<open>arp_process_packet\<close>. After the test of \<^verbatim>\<open>packet->size\<close> the fields are read
  through the cast, so a null \<^verbatim>\<open>data\<close> or a block shorter than the structure is
  undefined behaviour. \<open>arp_process_fields\<close> is the function from the verification of the
  fields on, given what the cast reads. The flag \<^verbatim>\<open>is_our_ip\<close> is the constant the
  source assigns.
\<close>

definition is_our_ip :: bool where
  "is_our_ip = False"

definition bump_invalid :: "arp_world \<Rightarrow> arp_world" where
  "bump_invalid w =
     w\<lparr> g_arp_table := (g_arp_table w)
          \<lparr> stats := (stats (g_arp_table w))
               \<lparr> invalid_packets := invalid_packets (stats (g_arp_table w)) + 1 \<rparr> \<rparr> \<rparr>"

definition arp_process_fields ::
  "platform \<Rightarrow> arp_world \<Rightarrow> arp_packet_t \<Rightarrow> u16 \<Rightarrow> status_t \<times> arp_world" where
  "arp_process_fields pl w view port_idx =
     (if ntohs (hw_type view) \<noteq> ARP_HARDWARE_TYPE_ETHERNET \<or>
         ntohs (protocol_type view) \<noteq> ARP_PROTOCOL_TYPE_IPV4 \<or>
         hw_addr_len view \<noteq> ARP_HARDWARE_SIZE_ETHERNET \<or>
         proto_addr_len view \<noteq> ARP_PROTOCOL_SIZE_IPV4
      then (STATUS_INVALID_PACKET, bump_invalid w)
      else
        let w1 = snd (arp_add_entry w (Some (sender_ip view)) (Some (sender_mac view)) port_idx)
        in if ntohs (operation view) = ARP_OP_REQUEST then
             let w2 = w1\<lparr> g_arp_table := (g_arp_table w1)
                        \<lparr> stats := (stats (g_arp_table w1))
                             \<lparr> requests_received :=
                                 requests_received (stats (g_arp_table w1)) + 1 \<rparr> \<rparr> \<rparr>
             in if is_our_ip then
                  (case arp_send_reply pl w2 (sender_ip view) (sender_mac view)
                          (target_ip view) port_idx of
                     (_, w3) \<Rightarrow>
                       (STATUS_SUCCESS,
                        w3\<lparr> g_arp_table := (g_arp_table w3)
                              \<lparr> stats := (stats (g_arp_table w3))
                                   \<lparr> replies_sent :=
                                       replies_sent (stats (g_arp_table w3)) + 1 \<rparr> \<rparr> \<rparr>))
                else (STATUS_SUCCESS, w2)
           else if ntohs (operation view) = ARP_OP_REPLY then
             (STATUS_SUCCESS,
              w1\<lparr> g_arp_table := (g_arp_table w1)
                    \<lparr> stats := (stats (g_arp_table w1))
                         \<lparr> replies_received :=
                             replies_received (stats (g_arp_table w1)) + 1 \<rparr> \<rparr> \<rparr>)
           else (STATUS_INVALID_PACKET, bump_invalid w1))"

definition arp_process_packet ::
  "platform \<Rightarrow> arp_world \<Rightarrow> packet_buffer_t option \<Rightarrow> u16 \<Rightarrow>
     (status_t \<times> arp_world) outcome" where
  "arp_process_packet pl w packet port_idx =
     (case packet of
        None \<Rightarrow> Returns (STATUS_INVALID_PARAMETER, w)
      | Some p \<Rightarrow>
          if \<not> initialized (g_arp_table w) then Returns (STATUS_NOT_INITIALIZED, w)
          else if size_p p < sizeof_arp_packet_t pl
          then Returns (STATUS_INVALID_PACKET, bump_invalid w)
          else
            (case data p of
               None \<Rightarrow> Undefined_Behaviour
             | Some blk \<Rightarrow>
                 if length blk < 32 then Undefined_Behaviour
                 else Returns (arp_process_fields pl w (arp_packet_view blk) port_idx)))"

text \<open>\<^verbatim>\<open>arp_handle_frame\<close> reads \<^verbatim>\<open>packet->metadata.port\<close> before any test of the
  pointer.\<close>

definition arp_handle_frame ::
  "platform \<Rightarrow> arp_world \<Rightarrow> packet_buffer_t option \<Rightarrow> (status_t \<times> arp_world) outcome" where
  "arp_handle_frame pl w packet =
     (case packet of
        None \<Rightarrow> Undefined_Behaviour
      | Some p \<Rightarrow> arp_process_packet pl w packet (port (metadata p)))"

definition arp_flush :: "arp_world \<Rightarrow> status_t \<times> arp_world" where
  "arp_flush w =
     (if \<not> initialized (g_arp_table w) then (STATUS_NOT_INITIALIZED, w)
      else
        (STATUS_SUCCESS,
         w\<lparr> g_arp_table := (g_arp_table w)
              \<lparr> hash_table := (\<lambda>b. if b < ARP_CACHE_SIZE then [] else hash_table (g_arp_table w) b),
                entry_count := 0,
                stats := (stats (g_arp_table w))
                  \<lparr> cache_flushes := cache_flushes (stats (g_arp_table w)) + 1 \<rparr> \<rparr> \<rparr>))"

text \<open>
  The \<^verbatim>\<open>while\<close> loop of \<^verbatim>\<open>arp_age_entries\<close> over one chain: the chain as the loop
  leaves it, how many entries it freed, how many requests it counted, and the world
  after the requests it sent.
\<close>

fun age_chain ::
  "platform \<Rightarrow> u32 \<Rightarrow> u32 \<Rightarrow> arp_entry_t list \<Rightarrow> arp_world \<Rightarrow>
     arp_entry_t list \<times> nat \<times> nat \<times> arp_world" where
  "age_chain pl now tmo [] w = ([], 0, 0, w)"
| "age_chain pl now tmo (e # es) w =
     (if state e = ARP_STATE_REACHABLE \<and> now - updated_time e > tmo then
        (case age_chain pl now tmo es w of
           (es', aged, sent, w') \<Rightarrow> (es', Suc aged, sent, w'))
      else if state e = ARP_STATE_INCOMPLETE \<and>
              now - updated_time e > of_nat (ARP_REQUEST_RETRY_INTERVAL_MS div 1000) then
        (if retry_count e < ARP_REQUEST_RETRY_COUNT then
           (case age_chain pl now tmo es (snd (arp_send_request pl w (ip e) (port_index e))) of
              (es', aged, sent, w') \<Rightarrow>
                (e\<lparr> retry_count := retry_count e + 1, updated_time := now \<rparr> # es',
                 aged, Suc sent, w'))
         else
           (case age_chain pl now tmo es w of
              (es', aged, sent, w') \<Rightarrow> (e\<lparr> state := ARP_STATE_FAILED \<rparr> # es', aged, sent, w')))
      else
        (case age_chain pl now tmo es w of
           (es', aged, sent, w') \<Rightarrow> (e # es', aged, sent, w')))"

definition age_bucket ::
  "platform \<Rightarrow> u32 \<Rightarrow> u32 \<Rightarrow> nat \<Rightarrow>
     (nat \<Rightarrow> arp_entry_t list) \<times> nat \<times> nat \<times> arp_world \<Rightarrow>
     (nat \<Rightarrow> arp_entry_t list) \<times> nat \<times> nat \<times> arp_world" where
  "age_bucket pl now tmo b acc =
     (case acc of
        (ht, aged, sent, w) \<Rightarrow>
          (case age_chain pl now tmo (ht b) w of
             (es', aged', sent', w') \<Rightarrow> (ht(b := es'), aged + aged', sent + sent', w')))"

definition arp_age_entries :: "platform \<Rightarrow> arp_world \<Rightarrow> status_t \<times> arp_world" where
  "arp_age_entries pl w =
     (if \<not> initialized (g_arp_table w) then (STATUS_NOT_INITIALIZED, w)
      else
        (case get_current_time w of
           (now, w1) \<Rightarrow>
             (case fold (age_bucket pl now (timeout (g_arp_table w1))) [0..<ARP_CACHE_SIZE]
                     (hash_table (g_arp_table w1), 0, 0, w1) of
                (ht, aged, sent, w2) \<Rightarrow>
                  (STATUS_SUCCESS,
                   w2\<lparr> g_arp_table := (g_arp_table w1)
                         \<lparr> hash_table := ht,
                           entry_count := entry_count (g_arp_table w1) - of_nat aged,
                           stats := (stats (g_arp_table w1))
                             \<lparr> requests_sent :=
                                 requests_sent (stats (g_arp_table w1)) + of_nat sent,
                               entries_aged :=
                                 entries_aged (stats (g_arp_table w1)) + of_nat aged \<rparr> \<rparr> \<rparr>))))"

section \<open>Well-formed buffers and sample values\<close>

text \<open>
  A buffer as the allocator hands it out and the operations keep it: the length does not
  exceed the capacity, and the data block is there and is \<^verbatim>\<open>capacity\<close> bytes long.
\<close>

definition buffer_ok :: "packet_buffer_t \<Rightarrow> bool" where
  "buffer_ok p =
     (size_p p \<le> capacity p \<and>
      (case data p of None \<Rightarrow> False | Some blk \<Rightarrow> length blk = unat (capacity p)))"

text \<open>The packet subsystem right after \<^verbatim>\<open>packet_init\<close>, an allocator that grants every
  request, and a four-byte buffer holding two bytes.\<close>

definition demo_globals :: packet_globals where
  "demo_globals = \<lparr> g_processors = replicate 64 empty_processor,
      g_processor_count = 0, g_initialized = True, recursion_depth = 0 \<rparr>"

definition demo_heap :: heap_t where
  "demo_heap = \<lparr> grants_struct = True, grants = (\<lambda>n. True), junk = (\<lambda>i. 0) \<rparr>"

definition demo_packet :: packet_buffer_t where
  "demo_packet = \<lparr> data = Some [1, 2, 3, 4], size_p = 2, capacity = 4,
      metadata = default_metadata, user_data_p = 0 \<rparr>"

text \<open>A callback table in which every function pointer leads to a function that asks
  for recirculation and leaves the packet as it is.\<close>

definition always_recirculate :: callbacks where
  "always_recirculate = (\<lambda>cb pkt udata. (PACKET_RESULT_RECIRCULATE, pkt))"

section \<open>Sample registries and what is read off a run\<close>

text \<open>How many calls in a log asked for recirculation.\<close>

definition recirculations :: "call_log \<Rightarrow> nat" where
  "recirculations calls = length (filter (\<lambda>c. snd c = PACKET_RESULT_RECIRCULATE) calls)"

text \<open>A registry with one active processor of priority 10.\<close>

definition demo_processor :: packet_processor_t where
  "demo_processor = \<lparr> callback = 1, priority = 10, user_data = 0, active = True \<rparr>"

definition demo_registry :: packet_globals where
  "demo_registry = demo_globals\<lparr> g_processors := demo_processor # replicate 63 empty_processor,
      g_processor_count := 1 \<rparr>"

text \<open>The globals that a registration leaves.\<close>

definition after_register :: "(status_t \<times> u32 option \<times> packet_globals) outcome \<Rightarrow> packet_globals" where
  "after_register res = (case res of Returns (_, _, g) \<Rightarrow> g | Undefined_Behaviour \<Rightarrow> demo_globals)"

text \<open>Two registrations, priority 10 then priority 5, and the release of the second handle.\<close>

definition demo_g1 :: packet_globals where
  "demo_g1 = after_register (packet_register_processor demo_globals 1 10 0 True)"

definition demo_g2 :: packet_globals where
  "demo_g2 = after_register (packet_register_processor demo_g1 2 5 0 True)"

definition demo_g3 :: packet_globals where
  "demo_g3 = snd (packet_unregister_processor demo_g2 1)"

text \<open>A callback table in which every function forwards the packet unchanged.\<close>

definition always_forward :: callbacks where
  "always_forward = (\<lambda>cb pkt udata. (PACKET_RESULT_FORWARD, pkt))"

text \<open>The local copy that \<^verbatim>\<open>packet_process\<close> takes: the first \<^verbatim>\<open>g_processor_count\<close> array elements.\<close>

definition snapshot :: "packet_globals \<Rightarrow> packet_processor_t list" where
  "snapshot g = take (unat (g_processor_count g)) (g_processors g)"

text \<open>The calls of one traversal of the registry \<open>demo_g2\<close>.\<close>

definition demo_calls :: call_log where
  "demo_calls =
     [(\<lparr> callback = 2, priority = 5, user_data = 0, active = True \<rparr>, PACKET_RESULT_FORWARD),
      (\<lparr> callback = 1, priority = 10, user_data = 0, active = True \<rparr>, PACKET_RESULT_FORWARD)]"

text \<open>Three registrations of priority 5, the release of the first handle, and a fourth registration of priority 5.\<close>

definition tie_g1 :: packet_globals where
  "tie_g1 = after_register (packet_register_processor demo_globals 1 5 0 True)"

definition tie_g2 :: packet_globals where
  "tie_g2 = after_register (packet_register_processor tie_g1 2 5 0 True)"

definition tie_g3 :: packet_globals where
  "tie_g3 = after_register (packet_register_processor tie_g2 3 5 0 True)"

definition tie_g4 :: packet_globals where
  "tie_g4 = snd (packet_unregister_processor tie_g3 0)"

definition tie_g5 :: packet_globals where
  "tie_g5 = after_register (packet_register_processor tie_g4 4 5 0 True)"

text \<open>The call log in the result of \<^verbatim>\<open>packet_process\<close>.\<close>

definition calls_of ::
  "packet_result_t \<times> packet_buffer_t option \<times> packet_globals \<times> call_log \<Rightarrow> call_log" where
  "calls_of res = snd (snd (snd res))"

section \<open>Sample ARP worlds and what the ARP properties speak of\<close>

text \<open>
  The state of the entry that \<^verbatim>\<open>arp_find_entry\<close> finds for an address, and the property that no
  chain holds an address twice (\<^verbatim>\<open>arp_add_entry\<close> inserts only after a failed search, so the
  operations keep it).
\<close>

definition entry_state :: "arp_table_t \<Rightarrow> ipv4_addr_t \<Rightarrow> arp_state_t option" where
  "entry_state t a = map_option state (arp_find_entry t a)"

definition chains_distinct :: "arp_table_t \<Rightarrow> bool" where
  "chains_distinct t =
     list_all (\<lambda>b. distinct (map ip (hash_table t b))) [0..<ARP_CACHE_SIZE]"

text \<open>
  The environment in which \<^verbatim>\<open>arp_send_request\<close> reaches the hardware simulation on port
  \<open>p\<close>: the packet subsystem is initialised, the allocator grants the buffer, and the
  port is valid and up. Then the frame it sends.
\<close>

definition link_ready :: "platform \<Rightarrow> arp_world \<Rightarrow> port_id_t \<Rightarrow> bool" where
  "link_ready pl w p =
     (g_initialized (packet_state w) \<and> grants_struct (heap pl) \<and>
      grants (heap pl) (unat (sizeof_ethernet_header_t + sizeof_arp_packet_t pl)) \<and>
      sizeof_ethernet_header_t + sizeof_arp_packet_t pl \<noteq> 0 \<and>
      port_is_valid pl p \<and> port_get_state pl p = (STATUS_SUCCESS, PORT_STATE_UP))"

definition arp_request_frame :: "platform \<Rightarrow> ipv4_addr_t \<Rightarrow> ethernet_header_t \<times> arp_packet_t" where
  "arp_request_frame pl a =
     (\<lparr> eth_dst_mac = replicate 6 0xFF, eth_src_mac = our_mac_local pl,
        eth_ethertype = htons ETHERTYPE_ARP \<rparr>,
      \<lparr> hw_type = htons ARP_HARDWARE_TYPE_ETHERNET,
        protocol_type = htons ARP_PROTOCOL_TYPE_IPV4,
        hw_addr_len = ARP_HARDWARE_SIZE_ETHERNET,
        proto_addr_len = ARP_PROTOCOL_SIZE_IPV4,
        operation = htons ARP_OP_REQUEST,
        sender_mac = our_mac_local pl, sender_ip = our_ip_local pl,
        target_mac = replicate 6 0, target_ip = a \<rparr>)"

text \<open>
  The entry that \<^verbatim>\<open>arp_lookup\<close> chains for an address it did not find.
\<close>

definition incomplete_entry :: "ipv4_addr_t \<Rightarrow> u32 \<Rightarrow> arp_entry_t" where
  "incomplete_entry a now =
     \<lparr> ip = a, mac = replicate 6 0, state = ARP_STATE_INCOMPLETE,
       created_time = now, updated_time = now, port_index = 0, retry_count = 0 \<rparr>"

text \<open>
  What one pass of \<^verbatim>\<open>arp_age_entries\<close> does to a single entry at time \<open>now\<close>: \<open>None\<close> when
  the entry is freed.
\<close>

definition age_entry :: "u32 \<Rightarrow> u32 \<Rightarrow> arp_entry_t \<Rightarrow> arp_entry_t option" where
  "age_entry now tmo e =
     (if state e = ARP_STATE_REACHABLE \<and> now - updated_time e > tmo then None
      else if state e = ARP_STATE_INCOMPLETE \<and>
              now - updated_time e > of_nat (ARP_REQUEST_RETRY_INTERVAL_MS div 1000) then
        (if retry_count e < ARP_REQUEST_RETRY_COUNT
         then Some (e\<lparr> retry_count := retry_count e + 1, updated_time := now \<rparr>)
         else Some (e\<lparr> state := ARP_STATE_FAILED \<rparr>))
      else Some e)"

text \<open>
  The cache operations, the world after one of them, and the changes of an entry's
  state that each operation makes: \<open>state_change op a s s'\<close> relates the state \<open>s\<close> of the
  entry for address \<open>a\<close> before \<open>op\<close> to its state \<open>s'\<close> after it, \<open>None\<close> standing for
  no entry.
\<close>

datatype arp_op =
    Add_or_update ipv4_addr_t mac_addr_t u16
  | Lookup ipv4_addr_t
  | Aging
  | Flush

definition apply_op :: "platform \<Rightarrow> arp_op \<Rightarrow> arp_world \<Rightarrow> arp_world" where
  "apply_op pl op w =
     (case op of
        Add_or_update a m p \<Rightarrow> snd (arp_add_entry w (Some a) (Some m) p)
      | Lookup a \<Rightarrow> snd (snd (snd (arp_lookup pl w (Some a) True True)))
      | Aging \<Rightarrow> snd (arp_age_entries pl w)
      | Flush \<Rightarrow> snd (arp_flush w))"

definition state_change ::
  "arp_op \<Rightarrow> ipv4_addr_t \<Rightarrow> arp_state_t option \<Rightarrow> arp_state_t option \<Rightarrow> bool" where
  "state_change op a s s' =
     (case op of
        Add_or_update a0 m p \<Rightarrow>
          s' = s \<or> s' = None \<and> a \<noteq> a0 \<or> a = a0 \<and> s' = Some ARP_STATE_REACHABLE
      | Lookup a0 \<Rightarrow>
          s' = s \<or> s' = None \<and> a \<noteq> a0 \<or> a = a0 \<and> s = None \<and> s' = Some ARP_STATE_INCOMPLETE
      | Aging \<Rightarrow>
          s' = s \<or> s = Some ARP_STATE_REACHABLE \<and> s' = None \<or>
          s = Some ARP_STATE_INCOMPLETE \<and> s' = Some ARP_STATE_FAILED
      | Flush \<Rightarrow> s' = s \<or> s' = None)"

text \<open>
  The table as a successful \<^verbatim>\<open>arp_init\<close> leaves it, a world around it with the clock at 0, a
  platform whose allocator grants every request and whose ports are up, the same
  platform with the ports down, and an address and a MAC address of a neighbour.
\<close>

definition zero_stats :: arp_stats_t where
  "zero_stats = \<lparr> requests_sent = 0, requests_received = 0, replies_sent = 0,
      replies_received = 0, cache_hits = 0, cache_misses = 0, cache_flushes = 0,
      cache_full_errors = 0, invalid_packets = 0, entries_added = 0, entries_removed = 0,
      entries_aged = 0, current_entries = 0 \<rparr>"

definition arp_init_table :: arp_table_t where
  "arp_init_table = \<lparr> hash_table = (\<lambda>b. []), entry_count = 0,
      timeout = ARP_CACHE_TIMEOUT_SEC, initialized = True, stats = zero_stats \<rparr>"

definition demo_arp_world :: arp_world where
  "demo_arp_world = \<lparr> g_arp_table = arp_init_table, time_counter = 0,
      packet_state = demo_globals, transmitted = [], port_sent = [], mac_table_added = [] \<rparr>"

definition demo_platform :: platform where
  "demo_platform = \<lparr> heap = demo_heap, sizeof_arp_packet_t = 32,
      our_ip_local = 0x0A000001, our_mac_local = [2, 0, 0, 0, 0, 1],
      port_is_valid = (\<lambda>p. p < 8),
      port_get_state = (\<lambda>p. (STATUS_SUCCESS, PORT_STATE_UP)),
      hw_sim_transmit_packet = (\<lambda>p. STATUS_SUCCESS),
      port_send_packet_ext = (\<lambda>p. STATUS_SUCCESS) \<rparr>"

definition port_down_platform :: platform where
  "port_down_platform =
     demo_platform\<lparr> port_get_state := (\<lambda>p. (STATUS_SUCCESS, PORT_STATE_DOWN)) \<rparr>"

definition demo_ip :: ipv4_addr_t where
  "demo_ip = 0x0A000002"

definition demo_mac :: mac_addr_t where
  "demo_mac = [2, 0, 0, 0, 0, 2]"

text \<open>
  A world whose cache was initialised, has the clock at \<open>n\<close>, keeps each address once
  per chain, and holds entry \<open>e\<close> for address \<open>a\<close>.
\<close>

definition tracked :: "arp_world \<Rightarrow> u32 \<Rightarrow> ipv4_addr_t \<Rightarrow> arp_entry_t \<Rightarrow> bool" where
  "tracked w n a e =
     (chains_distinct (g_arp_table w) \<and> initialized (g_arp_table w) \<and>
      timeout (g_arp_table w) = ARP_CACHE_TIMEOUT_SEC \<and> time_counter w = n \<and>
      arp_find_entry (g_arp_table w) a = Some e)"

text \<open>
  A cache with one entry for the neighbour in a given state. Then an ARP request from
  the neighbour for the local address: the 32 bytes of the structure as they lie in the
  packet data (padding after each MAC address), the fields that the cast reads from
  them, and the buffer that carries them, received on port 2.
\<close>

definition demo_entry :: "arp_state_t \<Rightarrow> arp_entry_t" where
  "demo_entry st = \<lparr> ip = demo_ip, mac = demo_mac, state = st, created_time = 0,
      updated_time = 0, port_index = 3, retry_count = 0 \<rparr>"

definition demo_cache :: "arp_state_t \<Rightarrow> arp_world" where
  "demo_cache st = demo_arp_world\<lparr> g_arp_table := chain_insert arp_init_table (demo_entry st) \<rparr>"

definition demo_request :: arp_packet_t where
  "demo_request = \<lparr> hw_type = htons ARP_HARDWARE_TYPE_ETHERNET,
      protocol_type = htons ARP_PROTOCOL_TYPE_IPV4,
      hw_addr_len = ARP_HARDWARE_SIZE_ETHERNET, proto_addr_len = ARP_PROTOCOL_SIZE_IPV4,
      operation = htons ARP_OP_REQUEST,
      sender_mac = demo_mac, sender_ip = demo_ip,
      target_mac = [0, 0, 0, 0, 0, 0], target_ip = our_ip_local demo_platform \<rparr>"

definition demo_request_bytes :: "u8 list" where
  "demo_request_bytes =
     [0, 1, 8, 0, 6, 4, 0, 1,
      2, 0, 0, 0, 0, 2, 0, 0,
      2, 0, 0, 10,
      0, 0, 0, 0, 0, 0, 0, 0,
      1, 0, 0, 10]"

definition demo_frame :: packet_buffer_t where
  "demo_frame = \<lparr> data = Some demo_request_bytes, size_p = 32, capacity = 32,
      metadata = default_metadata\<lparr> port := 2 \<rparr>, user_data_p = 0 \<rparr>"

section \<open>Properties of the packet buffer operations\<close>

subsection \<open>Memory blocks and the shift-copy of insert and remove\<close>
lemma mem_write_length: "mem_write blk off bs = Some blk' \<Longrightarrow> length blk' = length blk"
  by (auto simp: mem_write_def split: if_splits)

lemma mem_move_length: "mem_move blk d s n = Some blk' \<Longrightarrow> length blk' = length blk"
  by (auto simp: mem_move_def mem_write_length split: option.splits)

lemma realloc_length: "realloc h blk n = Some blk' \<Longrightarrow> length blk' = n"
  by (auto simp: realloc_def split: if_splits)

lemma buffer_okD:
  assumes "buffer_ok p"
  obtains blk where "data p = Some blk" "length blk = unat (capacity p)"
    "unat (size_p p) \<le> unat (capacity p)" "packet_buffer_is_valid (Some p)"
  using assms
  by (auto simp: buffer_ok_def packet_buffer_is_valid_def word_le_nat_alt not_less
           split: option.splits)

lemma insert_shift_after_resize:
  fixes off n newsz :: u32
  assumes "length nd = unat newsz" "off \<le> newsz" "n \<noteq> 0"
  shows "mem_move nd (unat off + unat n) (unat off) (unat (newsz - off)) = None"
proof -
  have a: "unat (newsz - off) = unat newsz - unat off"
    using assms(2) by (simp add: unat_sub)
  have b: "unat off \<le> unat newsz" using assms(2) by (simp add: word_le_nat_alt)
  have c: "0 < unat n" using assms(3) by (simp add: unat_gt_0)
  show ?thesis
    using a b c assms(1) by (simp add: mem_move_def mem_read_def mem_write_def)
qed

lemma mem_read_Some: "off + n \<le> length blk \<Longrightarrow> mem_read blk off n = Some (take n (drop off blk))"
  by (simp add: mem_read_def)

lemma mem_write_Some:
  "off + length bs \<le> length blk \<Longrightarrow>
   mem_write blk off bs = Some (take off blk @ bs @ drop (off + length bs) blk)"
  by (simp add: mem_write_def)

lemma mem_move_shift_up:
  assumes "a \<le> sz" "sz + n \<le> length blk"
  shows "mem_move blk (a + n) a (sz - a) =
           Some (take (a + n) blk @ take (sz - a) (drop a blk) @ drop (sz + n) blk)"
proof -
  have len: "length (take (sz - a) (drop a blk)) = sz - a" using assms by simp
  have rd: "mem_read blk a (sz - a) = Some (take (sz - a) (drop a blk))"
    using assms by (simp add: mem_read_Some)
  have wr: "mem_write blk (a + n) (take (sz - a) (drop a blk)) =
      Some (take (a + n) blk @ take (sz - a) (drop a blk) @ drop (a + n + (sz - a)) blk)"
    using assms len by (simp add: mem_write_def)
  have "a + n + (sz - a) = sz + n" using assms by simp
  with rd wr show ?thesis by (simp add: mem_move_def)
qed

lemma insert_lists:
  assumes "a \<le> sz" "sz + n \<le> length blk" "n \<le> length s"
  shows "mem_write (take (a + n) blk @ take (sz - a) (drop a blk) @ drop (sz + n) blk) a (take n s)
         = Some (take a blk @ take n s @ take (sz - a) (drop a blk) @ drop (sz + n) blk)"
proof -
  have l1: "length (take n s) = n" using assms by simp
  have l2: "length (take (a + n) blk) = a + n" using assms by simp
  have l3: "length (take (sz - a) (drop a blk)) = sz - a" using assms by simp
  have "a + n \<le> length (take (a + n) blk @ take (sz - a) (drop a blk) @ drop (sz + n) blk)"
    using l2 by simp
  then have "mem_write (take (a + n) blk @ take (sz - a) (drop a blk) @ drop (sz + n) blk) a (take n s)
      = Some (take a (take (a + n) blk @ take (sz - a) (drop a blk) @ drop (sz + n) blk)
              @ take n s
              @ drop (a + n) (take (a + n) blk @ take (sz - a) (drop a blk) @ drop (sz + n) blk))"
    using l1 by (simp add: mem_write_def)
  moreover have "take a (take (a + n) blk @ take (sz - a) (drop a blk) @ drop (sz + n) blk)
      = take a blk" using l2 by (simp add: min_def)
  moreover have "drop (a + n) (take (a + n) blk @ take (sz - a) (drop a blk) @ drop (sz + n) blk)
      = take (sz - a) (drop a blk) @ drop (sz + n) blk" using l2 by simp
  ultimately show ?thesis by simp
qed

lemma insert_shift_copy_fits:
  fixes off n :: u32
  assumes blk: "data p = Some blk"
    and off: "unat off \<le> unat (size_p p)"
    and fit: "unat (size_p p) + unat n \<le> length blk"
    and s: "unat n \<le> length s"
  shows "insert_shift_copy p off s n nsz =
     Returns (STATUS_SUCCESS,
       Some (p\<lparr> data := Some (take (unat off) blk @ take (unat n) s
                               @ take (unat (size_p p) - unat off) (drop (unat off) blk)
                               @ drop (unat (size_p p) + unat n) blk),
                size_p := nsz \<rparr>))"
proof -
  have le: "off \<le> size_p p" using off by (simp add: word_le_nat_alt)
  have sub: "unat (size_p p - off) = unat (size_p p) - unat off"
    using le by (simp add: unat_sub)
  have rd: "mem_read s 0 (unat n) = Some (take (unat n) s)"
    using s by (simp add: mem_read_def)
  show ?thesis
  proof (cases "off < size_p p")
    case True
    show ?thesis
      using True blk rd sub mem_move_shift_up [OF off fit] insert_lists [OF off fit s]
      by (simp add: insert_shift_copy_def)
  next
    case False
    with le have e: "off = size_p p" by simp
    have "mem_write blk (unat off) (take (unat n) s)
        = Some (take (unat off) blk @ take (unat n) s @ drop (unat off + unat n) blk)"
      using fit s e by (simp add: mem_write_def)
    then show ?thesis
      using False blk rd e by (simp add: insert_shift_copy_def)
  qed
qed


lemma insert_shift_copy_short_src:
  "length s < unat n \<Longrightarrow> insert_shift_copy p off s n nsz = Undefined_Behaviour"
  by (simp add: insert_shift_copy_def mem_read_def split: option.splits)

lemma insert_shift_copy_overflow:
  fixes off n :: u32
  assumes blk: "data p = Some blk"
    and off: "unat off \<le> unat (size_p p)"
    and sz: "unat (size_p p) \<le> length blk"
    and over: "length blk < unat (size_p p) + unat n"
  shows "insert_shift_copy p off s n nsz = Undefined_Behaviour"
proof (cases "length s < unat n")
  case True
  then show ?thesis by (rule insert_shift_copy_short_src)
next
  case False
  then have rd: "mem_read s 0 (unat n) = Some (take (unat n) s)" "length (take (unat n) s) = unat n"
    by (simp_all add: mem_read_def)
  have le: "off \<le> size_p p" using off by (simp add: word_le_nat_alt)
  have sub: "unat (size_p p - off) = unat (size_p p) - unat off"
    using le by (simp add: unat_sub)
  show ?thesis
  proof (cases "off < size_p p")
    case True
    have "mem_move blk (unat off + unat n) (unat off) (unat (size_p p) - unat off) = None"
      using off sz over by (simp add: mem_move_def mem_read_def mem_write_def)
    then show ?thesis using True blk sub by (simp add: insert_shift_copy_def)
  next
    case False
    with le have e: "off = size_p p" by simp
    have "mem_write blk (unat off) (take (unat n) s) = None"
      using over rd(2) e by (simp add: mem_write_def)
    then show ?thesis using False blk rd(1) by (simp add: insert_shift_copy_def)
  qed
qed

lemma insert_result:
  assumes ok: "buffer_ok p"
    and ins: "packet_insert g h (Some p) off src n = Returns (st, Some p')"
  shows "(st \<noteq> STATUS_SUCCESS \<and> p' = p) \<or>
         (st = STATUS_SUCCESS \<and> g_initialized g \<and> n \<noteq> 0 \<and> unat off \<le> unat (size_p p) \<and>
          unat (size_p p) + unat n \<le> unat (capacity p) \<and>
          (\<exists>blk s. data p = Some blk \<and> src = Some s \<and> unat n \<le> length s \<and>
             p' = p\<lparr> data := Some (take (unat off) blk @ take (unat n) s
                                   @ take (unat (size_p p) - unat off) (drop (unat off) blk)
                                   @ drop (unat (size_p p) + unat n) blk),
                      size_p := size_p p + n \<rparr>))"
proof -
  from ok obtain blk where blk: "data p = Some blk" "length blk = unat (capacity p)"
    "unat (size_p p) \<le> unat (capacity p)" and valid: "packet_buffer_is_valid (Some p)"
    by (rule buffer_okD)
  show ?thesis
  proof (cases "g_initialized g \<and> src \<noteq> None \<and> n \<noteq> 0 \<and> off \<le> size_p p")
    case False
    with ins valid show ?thesis
      by (auto simp: packet_insert_def not_le split: if_splits)
  next
    case True
    then obtain s where s: "src = Some s" by auto
    from ins s have ins': "packet_insert g h (Some p) off (Some s) n = Returns (st, Some p')"
      by simp
    from True have off: "unat off \<le> unat (size_p p)" by (simp add: word_le_nat_alt)
    from True have nlt: "\<not> size_p p < off" by (simp add: not_less)
    show ?thesis
    proof (cases "size_p p + n > capacity p")
      case grow: True
      have eq: "packet_insert g h (Some p) off (Some s) n =
         (case packet_buffer_resize g h (Some p) (size_p p + n) of
            (status, packet1) \<Rightarrow>
              if status \<noteq> STATUS_SUCCESS then Returns (status, packet1)
              else (case packet1 of
                      None \<Rightarrow> Undefined_Behaviour
                    | Some p1 \<Rightarrow> insert_shift_copy p1 off s n (size_p p + n)))"
        using True valid nlt grow by (simp add: packet_insert_def)
      have n0: "size_p p + n \<noteq> 0" using grow by auto
      have rs: "packet_buffer_resize g h (Some p) (size_p p + n) =
          (case realloc h blk (unat (size_p p + n)) of
             None \<Rightarrow> (STATUS_NO_MEMORY, Some p)
           | Some new_data \<Rightarrow>
               (STATUS_SUCCESS,
                Some (p\<lparr> data := Some new_data, capacity := size_p p + n,
                         size_p := size_p p + n \<rparr>)))"
        using True valid blk grow n0
        by (simp add: packet_buffer_resize_def not_le [symmetric])
      show ?thesis
      proof (cases "realloc h blk (unat (size_p p + n))")
        case None
        with ins' show ?thesis by (simp add: eq rs)
      next
        case (Some nd)
        have len: "length nd = unat (size_p p + n)" using Some by (rule realloc_length)
        have "size_p p \<le> capacity p" using blk(3) by (simp add: word_le_nat_alt)
        with grow True have lt: "off < size_p p + n" by (meson le_less_trans)
        then have le: "off \<le> size_p p + n" by simp
        from True have "n \<noteq> 0" by simp
        from insert_shift_after_resize [OF len le this]
        have "insert_shift_copy (p\<lparr> data := Some nd, capacity := size_p p + n,
                         size_p := size_p p + n \<rparr>) off s n (size_p p + n) = Undefined_Behaviour"
          using lt by (simp add: insert_shift_copy_def)
        with ins' Some show ?thesis by (simp add: eq rs)
      qed
    next
      case False
      have eq: "packet_insert g h (Some p) off (Some s) n = insert_shift_copy p off s n (size_p p + n)"
        using True valid nlt False by (simp add: packet_insert_def)
      show ?thesis
      proof (cases "unat (size_p p) + unat n \<le> length blk \<and> unat n \<le> length s")
        case fits: True
        from fits blk have f1: "unat (size_p p) + unat n \<le> length blk" and f2: "unat n \<le> length s"
          by simp_all
        from insert_shift_copy_fits [OF blk(1) off f1 f2, of "size_p p + n"] ins'
        have "st = STATUS_SUCCESS" and
          "p' = p\<lparr> data := Some (take (unat off) blk @ take (unat n) s
                                   @ take (unat (size_p p) - unat off) (drop (unat off) blk)
                                   @ drop (unat (size_p p) + unat n) blk),
                      size_p := size_p p + n \<rparr>"
          by (simp_all add: eq)
        with True off f1 f2 blk s show ?thesis by simp
      next
        case nofit: False
        have "insert_shift_copy p off s n (size_p p + n) = Undefined_Behaviour"
        proof (cases "unat n \<le> length s")
          case True
          with nofit have "length blk < unat (size_p p) + unat n" by simp
          from insert_shift_copy_overflow [OF blk(1) off _ this] blk show ?thesis by simp
        next
          case False
          then show ?thesis by (simp add: insert_shift_copy_short_src)
        qed
        with ins' show ?thesis by (simp add: eq)
      qed
    qed
  qed
qed

lemma mem_move_shift_down:
  assumes "a + n \<le> sz" "sz \<le> length blk"
  shows "mem_move blk a (a + n) (sz - (a + n)) =
           Some (take a blk @ take (sz - (a + n)) (drop (a + n) blk) @ drop (sz - n) blk)"
proof -
  have len: "length (take (sz - (a + n)) (drop (a + n) blk)) = sz - (a + n)" using assms by simp
  have rd: "mem_read blk (a + n) (sz - (a + n)) = Some (take (sz - (a + n)) (drop (a + n) blk))"
    using assms by (simp add: mem_read_Some)
  have "a + (sz - (a + n)) = sz - n" using assms by simp
  then have wr: "mem_write blk a (take (sz - (a + n)) (drop (a + n) blk)) =
      Some (take a blk @ take (sz - (a + n)) (drop (a + n) blk) @ drop (sz - n) blk)"
    using assms len by (simp add: mem_write_def)
  with rd show ?thesis by (simp add: mem_move_def)
qed

lemma remove_result:
  fixes off n :: u32
  assumes ok: "buffer_ok p" and init: "g_initialized g" and n0: "n \<noteq> 0"
    and fit: "unat off + unat n \<le> unat (size_p p)"
    and blk: "data p = Some blk"
  shows "packet_remove g (Some p) off n =
     Returns (STATUS_SUCCESS,
       Some (p\<lparr> data := Some (take (unat off) blk
                              @ take (unat (size_p p) - (unat off + unat n))
                                  (drop (unat off + unat n) blk)
                              @ drop (unat (size_p p) - unat n) blk),
                size_p := size_p p - n \<rparr>))"
proof -
  from ok blk have len: "length blk = unat (capacity p)"
    "unat (size_p p) \<le> unat (capacity p)" and valid: "packet_buffer_is_valid (Some p)"
    by (auto elim!: buffer_okD)
  have lt32: "unat off + unat n < 2 ^ 32"
    using fit unsigned_less [of "size_p p", where 'a = nat] by simp
  have sum: "unat (off + n) = unat off + unat n"
    using lt32 by (simp add: unat_add_lem [THEN iffD1])
  have nle: "\<not> off + n > size_p p" using fit sum by (simp add: word_less_nat_alt)
  have sub: "unat (size_p p - (off + n)) = unat (size_p p) - (unat off + unat n)"
    using fit sum by (simp add: unat_sub word_le_nat_alt)
  show ?thesis
  proof (cases "off + n < size_p p")
    case True
    from fit len have "unat (size_p p) \<le> length blk" by simp
    from mem_move_shift_down [OF fit this] True init valid n0 nle blk sub
    show ?thesis by (simp add: packet_remove_def)
  next
    case False
    with nle have "off + n = size_p p" by simp
    then have e: "unat (size_p p) = unat off + unat n" using sum by simp
    then show ?thesis using False init valid n0 nle blk
      by (simp add: packet_remove_def)
  qed
qed


lemma insert_ok:
  assumes ok: "buffer_ok p"
    and ins: "packet_insert g h (Some p) off src n = Returns (st, Some p')"
  shows "buffer_ok p' \<and> capacity p' = capacity p"
proof -
  from ok obtain blk0 where blk0: "data p = Some blk0" "length blk0 = unat (capacity p)"
    "unat (size_p p) \<le> unat (capacity p)"
    by (rule buffer_okD)
  from insert_result [OF ok ins] show ?thesis
  proof
    assume "st \<noteq> STATUS_SUCCESS \<and> p' = p"
    with ok show ?thesis by simp
  next
    assume a: "st = STATUS_SUCCESS \<and> g_initialized g \<and> n \<noteq> 0 \<and> unat off \<le> unat (size_p p) \<and>
          unat (size_p p) + unat n \<le> unat (capacity p) \<and>
          (\<exists>blk s. data p = Some blk \<and> src = Some s \<and> unat n \<le> length s \<and>
             p' = p\<lparr> data := Some (take (unat off) blk @ take (unat n) s
                                   @ take (unat (size_p p) - unat off) (drop (unat off) blk)
                                   @ drop (unat (size_p p) + unat n) blk),
                      size_p := size_p p + n \<rparr>)"
    then obtain s where s: "unat n \<le> length s"
      and p': "p' = p\<lparr> data := Some (take (unat off) blk0 @ take (unat n) s
                                   @ take (unat (size_p p) - unat off) (drop (unat off) blk0)
                                   @ drop (unat (size_p p) + unat n) blk0),
                      size_p := size_p p + n \<rparr>"
      using blk0 by auto
    from a have fit: "unat (size_p p) + unat n \<le> unat (capacity p)"
      and off: "unat off \<le> unat (size_p p)" by simp_all
    have "unat (size_p p) + unat n < 2 ^ 32"
      using fit unsigned_less [of "capacity p", where 'a = nat] by simp
    then have "unat (size_p p + n) = unat (size_p p) + unat n"
      by (simp add: unat_add_lem [THEN iffD1])
    with fit have le: "size_p p + n \<le> capacity p" by (simp add: word_le_nat_alt)
    have "length (take (unat off) blk0 @ take (unat n) s
                                   @ take (unat (size_p p) - unat off) (drop (unat off) blk0)
                                   @ drop (unat (size_p p) + unat n) blk0) = length blk0"
      using s fit off blk0 by simp
    with le blk0 show ?thesis by (simp add: p' buffer_ok_def)
  qed
qed

lemma remove_cases:
  fixes off n :: u32
  assumes ok: "buffer_ok p" and nowrap: "unat off + unat n < 2 ^ 32"
    and rm: "packet_remove g (Some p) off n = Returns (st, Some p')"
  shows "(st \<noteq> STATUS_SUCCESS \<and> p' = p) \<or>
         (g_initialized g \<and> n \<noteq> 0 \<and> unat off + unat n \<le> unat (size_p p))"
proof -
  from ok have valid: "packet_buffer_is_valid (Some p)" by (auto elim!: buffer_okD)
  have sum: "unat (off + n) = unat off + unat n"
    using nowrap by (simp add: unat_add_lem [THEN iffD1])
  show ?thesis
  proof (cases "g_initialized g \<and> n \<noteq> 0 \<and> \<not> off + n > size_p p")
    case True
    then show ?thesis using sum by (simp add: word_less_nat_alt not_less)
  next
    case False
    with rm valid show ?thesis by (auto simp: packet_remove_def split: if_splits)
  qed
qed

lemma remove_ok:
  fixes off n :: u32
  assumes ok: "buffer_ok p" and nowrap: "unat off + unat n < 2 ^ 32"
    and rm: "packet_remove g (Some p) off n = Returns (st, Some p')"
  shows "buffer_ok p' \<and> capacity p' = capacity p"
proof -
  from ok obtain blk where blk: "data p = Some blk" "length blk = unat (capacity p)"
    "unat (size_p p) \<le> unat (capacity p)"
    by (rule buffer_okD)
  from remove_cases [OF ok nowrap rm] show ?thesis
  proof
    assume "st \<noteq> STATUS_SUCCESS \<and> p' = p"
    with ok show ?thesis by simp
  next
    assume a: "g_initialized g \<and> n \<noteq> 0 \<and> unat off + unat n \<le> unat (size_p p)"
    then have fit: "unat off + unat n \<le> unat (size_p p)" by simp
    from a remove_result [OF ok _ _ fit blk(1), of g] rm
    have p': "p' = p\<lparr> data := Some (take (unat off) blk
                              @ take (unat (size_p p) - (unat off + unat n))
                                  (drop (unat off + unat n) blk)
                              @ drop (unat (size_p p) - unat n) blk),
                size_p := size_p p - n \<rparr>" by simp
    have "n \<le> size_p p" using fit by (simp add: word_le_nat_alt)
    then have "size_p p - n \<le> size_p p" by (rule word_sub_le)
    moreover have "size_p p \<le> capacity p" using blk(3) by (simp add: word_le_nat_alt)
    ultimately have le: "size_p p - n \<le> capacity p" by simp
    have "length (take (unat off) blk
                              @ take (unat (size_p p) - (unat off + unat n))
                                  (drop (unat off + unat n) blk)
                              @ drop (unat (size_p p) - unat n) blk) = length blk"
      using fit blk by simp
    with le blk show ?thesis by (simp add: p' buffer_ok_def)
  qed
qed

text \<open>
  Inserts that return \<^verbatim>\<open>STATUS_SUCCESS\<close>; by \<open>insert_result\<close> they are the inserts that
  fit the capacity. For every well-formed packet buffer \<open>p\<close>, offset \<open>off\<close> and source
  bytes of count \<open>n\<close>: after such an insert, \<^verbatim>\<open>packet_remove(p, off, n)\<close> returns
  \<^verbatim>\<open>STATUS_SUCCESS\<close> and leaves the original length, capacity and metadata and the
  original first \<^verbatim>\<open>len\<close> bytes.
\<close>

lemma insert_then_remove_restores:
  assumes ok: "buffer_ok p"
    and ins: "packet_insert g h (Some p) off src n = Returns (STATUS_SUCCESS, Some p')"
  shows "\<exists>p'' blk blk''.
           packet_remove g (Some p') off n = Returns (STATUS_SUCCESS, Some p'') \<and>
           size_p p'' = size_p p \<and> capacity p'' = capacity p \<and> metadata p'' = metadata p \<and>
           data p = Some blk \<and> data p'' = Some blk'' \<and>
           take (unat (size_p p)) blk'' = take (unat (size_p p)) blk"
proof -
  from ok obtain blk where blk: "data p = Some blk" "length blk = unat (capacity p)"
    "unat (size_p p) \<le> unat (capacity p)"
    by (rule buffer_okD)
  from insert_result [OF ok ins] blk obtain s where
      init: "g_initialized g" and n0: "n \<noteq> 0" and off: "unat off \<le> unat (size_p p)"
    and fit: "unat (size_p p) + unat n \<le> unat (capacity p)"
    and s: "unat n \<le> length s"
    and p': "p' = p\<lparr> data := Some (take (unat off) blk @ take (unat n) s
                                   @ take (unat (size_p p) - unat off) (drop (unat off) blk)
                                   @ drop (unat (size_p p) + unat n) blk),
                      size_p := size_p p + n \<rparr>"
    by auto
  define A where "A = take (unat off) blk"
  define S where "S = take (unat n) s"
  define B where "B = take (unat (size_p p) - unat off) (drop (unat off) blk)"
  define R where "R = drop (unat (size_p p) + unat n) blk"
  have lA: "length A = unat off" using off blk by (simp add: A_def)
  have lS: "length S = unat n" using s by (simp add: S_def)
  have lB: "length B = unat (size_p p) - unat off" using off blk by (simp add: B_def)
  have AB: "A @ B = take (unat (size_p p)) blk"
    using off take_add [of "unat off" "unat (size_p p) - unat off" blk]
    by (simp add: A_def B_def)
  have dp': "data p' = Some (A @ S @ B @ R)" by (simp add: p' A_def S_def B_def R_def)
  have ok': "buffer_ok p'" using insert_ok [OF ok ins] by simp
  have "unat (size_p p) + unat n < 2 ^ 32"
    using fit unsigned_less [of "capacity p", where 'a = nat] by simp
  then have sz': "unat (size_p p') = unat (size_p p) + unat n"
    by (simp add: p' unat_add_lem [THEN iffD1])
  have fit': "unat off + unat n \<le> unat (size_p p')" using off sz' by simp
  have rm: "packet_remove g (Some p') off n =
     Returns (STATUS_SUCCESS,
       Some (p'\<lparr> data := Some (take (unat off) (A @ S @ B @ R)
                              @ take (unat (size_p p') - (unat off + unat n))
                                  (drop (unat off + unat n) (A @ S @ B @ R))
                              @ drop (unat (size_p p') - unat n) (A @ S @ B @ R)),
                size_p := size_p p' - n \<rparr>))"
    by (rule remove_result [OF ok' init n0 fit' dp'])
  have t1: "take (unat off) (A @ S @ B @ R) = A" using lA by simp
  have t2: "take (unat (size_p p') - (unat off + unat n))
                                  (drop (unat off + unat n) (A @ S @ B @ R)) = B"
    using lA lS lB sz' off by simp
  define X where "X = drop (unat (size_p p') - unat n) (A @ S @ B @ R)"
  have t3: "take (unat (size_p p)) (A @ B @ X) = take (unat (size_p p)) blk"
    using lA lB off AB by simp
  have rm': "packet_remove g (Some p') off n =
     Returns (STATUS_SUCCESS, Some (p'\<lparr> data := Some (A @ B @ X), size_p := size_p p' - n \<rparr>))"
    using rm by (simp only: t1 t2 X_def)
  have "size_p (p'\<lparr> data := Some (A @ B @ X), size_p := size_p p' - n \<rparr>) = size_p p"
    "capacity (p'\<lparr> data := Some (A @ B @ X), size_p := size_p p' - n \<rparr>) = capacity p"
    "metadata (p'\<lparr> data := Some (A @ B @ X), size_p := size_p p' - n \<rparr>) = metadata p"
    "data (p'\<lparr> data := Some (A @ B @ X), size_p := size_p p' - n \<rparr>) = Some (A @ B @ X)"
    by (simp_all add: p')
  with rm' blk(1) t3 show ?thesis by blast
qed




subsection \<open>The buffer invariant\<close>

lemma malloc_length: "malloc h n = Some blk \<Longrightarrow> length blk = n"
  by (auto simp: malloc_def split: if_splits)

lemma alloc_ok:
  "packet_buffer_alloc g h sz = Some q \<Longrightarrow>
     sz \<noteq> 0 \<and> capacity q = sz \<and> size_p q = 0 \<and> buffer_ok q"
  by (auto simp: packet_buffer_alloc_def buffer_ok_def malloc_length split: if_splits option.splits)

lemma reset_ok:
  "buffer_ok p \<Longrightarrow> packet_reset g (Some p) = Returns (Some p') \<Longrightarrow>
     buffer_ok p' \<and> capacity p' = capacity p"
  by (auto simp: packet_reset_def buffer_ok_def mem_write_length split: if_splits option.splits)

lemma append_ok:
  "buffer_ok p \<Longrightarrow> packet_append_data g (Some p) src n = Returns (st, Some p') \<Longrightarrow>
     buffer_ok p' \<and> capacity p' = capacity p"
  by (auto simp: packet_append_data_def buffer_ok_def mem_write_length
           split: if_splits option.splits)

lemma resize_ok:
  "buffer_ok p \<Longrightarrow> packet_buffer_resize g h (Some p) n = (st, Some p') \<Longrightarrow> buffer_ok p'"
  by (auto simp: packet_buffer_resize_def buffer_ok_def realloc_length
           split: if_splits option.splits)

lemma clone_ok:
  "buffer_ok p \<Longrightarrow> packet_buffer_clone g h (Some p) = Returns (Some p') \<Longrightarrow>
     buffer_ok p' \<and> capacity p' = capacity p"
  by (auto simp: packet_buffer_clone_def buffer_ok_def mem_write_length
           dest!: alloc_ok split: if_splits option.splits)

text \<open>
  Claim C1, as the code has it. \<^verbatim>\<open>packet_buffer_alloc\<close> requires only \<open>size > 0\<close> and
  returns an empty buffer whose capacity is the requested size, whatever that size is.
  Every buffer that append, resize, insert, reset or clone returns for a well-formed
  buffer is well-formed again (\<open>len \<le> capacity\<close>, with a data block of \<^verbatim>\<open>capacity\<close>
  bytes), and so is every buffer that remove returns when \<open>off + n\<close> does not exceed
  32 bits. No operation compares a capacity with \<^verbatim>\<open>MAX_PACKET_SIZE\<close>.
\<close>

theorem len_le_capacity_preserved:
  assumes "buffer_ok p"
  shows "(\<forall>sz q. packet_buffer_alloc g h sz = Some q \<longrightarrow>
            sz \<noteq> 0 \<and> size_p q = 0 \<and> capacity q = sz \<and> buffer_ok q) \<and>
         (\<forall>src n st p'. packet_append_data g (Some p) src n = Returns (st, Some p') \<longrightarrow>
            buffer_ok p') \<and>
         (\<forall>n st p'. packet_buffer_resize g h (Some p) n = (st, Some p') \<longrightarrow> buffer_ok p') \<and>
         (\<forall>off src n st p'. packet_insert g h (Some p) off src n = Returns (st, Some p') \<longrightarrow>
            buffer_ok p') \<and>
         (\<forall>off n st p'. unat off + unat n < 2 ^ 32 \<longrightarrow>
            packet_remove g (Some p) off n = Returns (st, Some p') \<longrightarrow> buffer_ok p') \<and>
         (\<forall>p'. packet_reset g (Some p) = Returns (Some p') \<longrightarrow> buffer_ok p') \<and>
         (\<forall>p'. packet_buffer_clone g h (Some p) = Returns (Some p') \<longrightarrow> buffer_ok p')"
  using assms
  apply (intro conjI allI impI)
            apply (blast dest: alloc_ok)
           apply (blast dest: alloc_ok)
          apply (blast dest: alloc_ok)
         apply (blast dest: alloc_ok)
        apply (blast dest: append_ok)
       apply (blast dest: resize_ok)
      apply (blast dest: insert_ok)
     apply (blast dest: remove_ok)
    apply (blast dest: reset_ok)
   apply (blast dest: clone_ok)
  done

lemma demo_alloc:
  "packet_buffer_alloc demo_globals demo_heap 10000 =
     Some \<lparr> data = Some (map (\<lambda>i. 0) [0..<unat (10000 :: u32)]), size_p = 0, capacity = 10000,
            metadata = default_metadata, user_data_p = 0 \<rparr>"
  unfolding packet_buffer_alloc_def malloc_def demo_globals_def demo_heap_def
  by (simp del: unsigned_numeral upt_rec_numeral)

theorem capacity_bound_counterexample:
  "\<not> (case packet_buffer_alloc demo_globals demo_heap 10000 of
         None \<Rightarrow> True
       | Some q \<Rightarrow> size_p q \<le> capacity q \<and> capacity q \<le> MAX_PACKET_SIZE)"
  by (simp add: demo_alloc MAX_PACKET_SIZE_def del: unsigned_numeral upt_rec_numeral)




subsection \<open>Sample runs\<close>

lemma demo_packet_ok: "buffer_ok demo_packet"
  by (simp add: buffer_ok_def demo_packet_def)

lemma demo_append:
  "packet_append_data demo_globals (Some demo_packet) (Some [7]) 1 =
     Returns (STATUS_SUCCESS, Some (demo_packet\<lparr> data := Some [1, 2, 7, 4], size_p := 3 \<rparr>))"
  by (simp add: packet_append_data_def demo_globals_def demo_packet_def mem_read_def mem_write_def)

lemma demo_resize:
  "packet_buffer_resize demo_globals demo_heap (Some demo_packet) 3 =
     (STATUS_SUCCESS, Some (demo_packet\<lparr> size_p := 3 \<rparr>))"
  by (simp add: packet_buffer_resize_def packet_buffer_is_valid_def demo_globals_def demo_packet_def)

lemma demo_insert:
  "packet_insert demo_globals demo_heap (Some demo_packet) 1 (Some [9]) 1 =
     Returns (STATUS_SUCCESS, Some (demo_packet\<lparr> data := Some [1, 9, 2, 4], size_p := 3 \<rparr>))"
  by (simp add: packet_insert_def insert_shift_copy_def packet_buffer_is_valid_def
        demo_globals_def demo_packet_def mem_move_def mem_read_def mem_write_def)

lemma demo_remove:
  "packet_remove demo_globals (Some demo_packet) 0 1 =
     Returns (STATUS_SUCCESS, Some (demo_packet\<lparr> data := Some [2, 2, 3, 4], size_p := 1 \<rparr>))"
  by (simp add: packet_remove_def packet_buffer_is_valid_def
        demo_globals_def demo_packet_def mem_move_def mem_read_def mem_write_def)

lemma demo_reset:
  "packet_reset demo_globals (Some demo_packet) =
     Returns (Some (demo_packet\<lparr> data := Some [0, 0, 0, 0], size_p := 0 \<rparr>))"
  by code_simp

lemma demo_clone:
  "packet_buffer_clone demo_globals demo_heap (Some demo_packet) =
     Returns (Some (demo_packet\<lparr> data := Some [1, 2, 0, 0] \<rparr>))"
  by code_simp

lemma demo_alloc4:
  "packet_buffer_alloc demo_globals demo_heap 4 =
     Some \<lparr> data = Some [0, 0, 0, 0], size_p = 0, capacity = 4,
            metadata = default_metadata, user_data_p = 0 \<rparr>"
  by code_simp

theorem len_le_capacity_preserved_witness:
  "buffer_ok demo_packet \<and>
   buffer_ok \<lparr> data = Some [0, 0, 0, 0], size_p = 0, capacity = 4,
                metadata = default_metadata, user_data_p = 0 \<rparr> \<and>
   buffer_ok (demo_packet\<lparr> data := Some [1, 2, 7, 4], size_p := 3 \<rparr>) \<and>
   buffer_ok (demo_packet\<lparr> size_p := 3 \<rparr>) \<and>
   buffer_ok (demo_packet\<lparr> data := Some [1, 9, 2, 4], size_p := 3 \<rparr>) \<and>
   unat (0 :: u32) + unat (1 :: u32) < 2 ^ 32 \<and>
   buffer_ok (demo_packet\<lparr> data := Some [2, 2, 3, 4], size_p := 1 \<rparr>) \<and>
   buffer_ok (demo_packet\<lparr> data := Some [0, 0, 0, 0], size_p := 0 \<rparr>) \<and>
   buffer_ok (demo_packet\<lparr> data := Some [1, 2, 0, 0] \<rparr>)"
proof -
  note T = len_le_capacity_preserved [OF demo_packet_ok, of demo_globals demo_heap]
  have n: "unat (0 :: u32) + unat (1 :: u32) < 2 ^ 32" by simp
  from T demo_alloc4
  have a: "buffer_ok \<lparr> data = Some [0, 0, 0, 0], size_p = 0, capacity = 4,
                metadata = default_metadata, user_data_p = 0 \<rparr>" by blast
  from T demo_append
  have b: "buffer_ok (demo_packet\<lparr> data := Some [1, 2, 7, 4], size_p := 3 \<rparr>)" by blast
  from T demo_resize have c: "buffer_ok (demo_packet\<lparr> size_p := 3 \<rparr>)" by blast
  from T demo_insert
  have d: "buffer_ok (demo_packet\<lparr> data := Some [1, 9, 2, 4], size_p := 3 \<rparr>)" by blast
  from T n demo_remove
  have e: "buffer_ok (demo_packet\<lparr> data := Some [2, 2, 3, 4], size_p := 1 \<rparr>)" by blast
  from T demo_reset
  have f: "buffer_ok (demo_packet\<lparr> data := Some [0, 0, 0, 0], size_p := 0 \<rparr>)" by blast
  from T demo_clone have g: "buffer_ok (demo_packet\<lparr> data := Some [1, 2, 0, 0] \<rparr>)" by blast
  from demo_packet_ok a b c d n e f g show ?thesis by blast
qed

lemma insert_then_remove_sample:
  "buffer_ok demo_packet \<and>
   packet_insert demo_globals demo_heap (Some demo_packet) 1 (Some [9]) 1 =
     Returns (STATUS_SUCCESS, Some (demo_packet\<lparr> data := Some [1, 9, 2, 4], size_p := 3 \<rparr>)) \<and>
   (\<exists>p'' blk blk''.
      packet_remove demo_globals
        (Some (demo_packet\<lparr> data := Some [1, 9, 2, 4], size_p := 3 \<rparr>)) 1 1
        = Returns (STATUS_SUCCESS, Some p'') \<and>
      size_p p'' = size_p demo_packet \<and> capacity p'' = capacity demo_packet \<and>
      metadata p'' = metadata demo_packet \<and>
      data demo_packet = Some blk \<and> data p'' = Some blk'' \<and>
      take (unat (size_p demo_packet)) blk'' = take (unat (size_p demo_packet)) blk)"
  using insert_then_remove_restores [OF demo_packet_ok demo_insert] demo_packet_ok demo_insert
  by simp

subsection \<open>Inserts that grow the buffer\<close>

lemma demo_grow_resize:
  "packet_buffer_resize demo_globals demo_heap (Some demo_packet) 5 =
     (STATUS_SUCCESS,
      Some (demo_packet\<lparr> data := Some [1, 2, 3, 4, 0], capacity := 5, size_p := 5 \<rparr>))"
  by code_simp

lemma demo_grow_shift: "mem_move [1, 2, 3, 4, 0 :: u8] 4 1 4 = None"
  by code_simp

text \<open>
  Claim C9 fails on the code where the insert has to grow the buffer. Take a
  well-formed buffer and an insert at an offset within the length whose new size
  exceeds the capacity, the allocator granting the block. \<^verbatim>\<open>packet_buffer_resize\<close>
  returns \<^verbatim>\<open>STATUS_SUCCESS\<close> with a block of exactly \<^verbatim>\<open>new_size\<close> bytes and has stored
  \<^verbatim>\<open>new_size\<close> in \<^verbatim>\<open>packet->size\<close>; the shift then moves \<^verbatim>\<open>packet->size - offset\<close> bytes
  to \<^verbatim>\<open>offset + size\<close>, which ends \<^verbatim>\<open>size\<close> bytes past the block. The call is undefined
  behaviour: it returns no buffer that \<^verbatim>\<open>packet_remove\<close> could restore.
\<close>

theorem growing_insert_overflows:
  assumes init: "g_initialized g" and ok: "buffer_ok p"
    and off: "off \<le> size_p p"
    and grow: "capacity p < size_p p + n"
    and granted: "grants h (unat (size_p p + n))"
  shows "(\<exists>nd. packet_buffer_resize g h (Some p) (size_p p + n) =
                 (STATUS_SUCCESS,
                  Some (p\<lparr> data := Some nd, capacity := size_p p + n,
                           size_p := size_p p + n \<rparr>)) \<and>
               length nd = unat (size_p p + n) \<and>
               mem_move nd (unat off + unat n) (unat off) (unat (size_p p + n - off)) = None) \<and>
         packet_insert g h (Some p) off (Some s) n = Undefined_Behaviour"
proof -
  from ok obtain blk where blk: "data p = Some blk" "length blk = unat (capacity p)"
    "unat (size_p p) \<le> unat (capacity p)" and valid: "packet_buffer_is_valid (Some p)"
    by (rule buffer_okD)
  define new_size where "new_size = size_p p + n"
  have le: "size_p p \<le> capacity p" using blk(3) by (simp add: word_le_nat_alt)
  have lt: "capacity p < new_size" using grow by (simp add: new_size_def)
  from le lt have "size_p p \<le> size_p p + n" by (simp add: new_size_def)
  then have sum: "unat new_size = unat (size_p p) + unat n"
    unfolding new_size_def by (rule unat_plus_simple [THEN iffD1])
  have n0: "n \<noteq> 0"
  proof
    assume "n = 0"
    with lt le show False by (simp add: new_size_def)
  qed
  have nz: "new_size \<noteq> 0"
  proof
    assume "new_size = 0"
    with lt show False by simp
  qed
  have offn: "off \<le> new_size"
    using off sum by (simp add: word_le_nat_alt)
  define nd where "nd = take (unat new_size) blk @ map (junk h) [length blk..<unat new_size]"
  have lnd: "length nd = unat new_size"
    using lt blk(2) by (simp add: nd_def word_less_nat_alt)
  have rs: "packet_buffer_resize g h (Some p) new_size =
      (STATUS_SUCCESS,
       Some (p\<lparr> data := Some nd, capacity := new_size, size_p := new_size \<rparr>))"
    using init valid blk(1) nz lt granted
    by (simp add: packet_buffer_resize_def realloc_def nd_def new_size_def not_le [symmetric])
  have mv: "mem_move nd (unat off + unat n) (unat off) (unat (new_size - off)) = None"
    using lnd offn n0 by (rule insert_shift_after_resize)
  let ?p1 = "p\<lparr> data := Some nd, capacity := new_size, size_p := new_size \<rparr>"
  have sc: "insert_shift_copy ?p1 off s n new_size = Undefined_Behaviour"
  proof (rule insert_shift_copy_overflow [where blk = nd])
    show "data ?p1 = Some nd" by simp
    show "unat off \<le> unat (size_p ?p1)" using offn by (simp add: word_le_nat_alt)
    show "unat (size_p ?p1) \<le> length nd" by (simp add: lnd)
    show "length nd < unat (size_p ?p1) + unat n"
      using n0 by (simp add: lnd unat_gt_0)
  qed
  have ins: "packet_insert g h (Some p) off (Some s) n = Undefined_Behaviour"
    using init valid n0 off lt rs sc
    by (simp add: packet_insert_def new_size_def [symmetric] not_less [symmetric])
  from rs lnd mv ins show ?thesis unfolding new_size_def by blast
qed

text \<open>
  The buffer of length 2 and capacity 4, with three bytes inserted at offset 1: the block
  is reallocated to 5 bytes, and the shift of 4 bytes to offset 4 does not fit it.
\<close>

theorem growing_insert_overflows_witness:
  "g_initialized demo_globals \<and> buffer_ok demo_packet \<and>
   (1 :: u32) \<le> size_p demo_packet \<and>
   capacity demo_packet < size_p demo_packet + 3 \<and>
   grants demo_heap (unat (size_p demo_packet + 3)) \<and>
   packet_buffer_resize demo_globals demo_heap (Some demo_packet) 5 =
     (STATUS_SUCCESS,
      Some (demo_packet\<lparr> data := Some [1, 2, 3, 4, 0], capacity := 5, size_p := 5 \<rparr>)) \<and>
   mem_move [1, 2, 3, 4, 0 :: u8] 4 1 4 = None \<and>
   packet_insert demo_globals demo_heap (Some demo_packet) 1 (Some [7, 8, 9]) 3 =
     Undefined_Behaviour"
proof -
  have h1: "g_initialized demo_globals" by (simp add: demo_globals_def)
  have h3: "(1 :: u32) \<le> size_p demo_packet" by (simp add: demo_packet_def)
  have h4: "capacity demo_packet < size_p demo_packet + 3" by (simp add: demo_packet_def)
  have h5: "grants demo_heap (unat (size_p demo_packet + 3))" by (simp add: demo_heap_def)
  from growing_insert_overflows [OF h1 demo_packet_ok h3 h4 h5, of "[7, 8, 9]"]
  have "packet_insert demo_globals demo_heap (Some demo_packet) 1 (Some [7, 8, 9]) 3 =
     Undefined_Behaviour"
    by blast
  with h1 demo_packet_ok h3 h4 h5 demo_grow_resize demo_grow_shift show ?thesis by simp
qed

subsection \<open>Reads\<close>

lemma u32_add_gt_iff:
  fixes a b c :: u32
  assumes "unat a + unat b < 2 ^ 32"
  shows "(a + b > c) = (unat a + unat b > unat c)"
proof -
  have "unat (a + b) = unat a + unat b"
    using assms by (simp add: unat_add_lem [THEN iffD1])
  then show ?thesis by (simp add: word_less_nat_alt)
qed

text \<open>
  Claim C8, as the code has it. On an initialised subsystem, for a buffer whose first
  \<^verbatim>\<open>len\<close> bytes lie in its data block and for \<open>off + n\<close> within 32 bits:
  \<^verbatim>\<open>packet_peek_byte\<close> fails exactly when \<open>off + 1 > len\<close>; \<^verbatim>\<open>packet_peek_data\<close> fails
  exactly when \<open>off + n > len\<close>, also for \<open>n = 0\<close>; \<^verbatim>\<open>packet_copy_data\<close> with \<open>n > 0\<close>
  does what \<^verbatim>\<open>packet_peek_data\<close> does. A successful read returns the bytes
  \<open>[off, off + n)\<close> and none of the three calls leaves the block. \<^verbatim>\<open>packet_copy_data\<close>
  with \<open>n = 0\<close> returns success for every offset, buffer and subsystem state.
\<close>

theorem read_bounds:
  assumes "g_initialized g" and "data p = Some blk" and "unat (size_p p) \<le> length blk"
    and "unat off + unat n < 2 ^ 32"
  shows "packet_peek_byte g (Some p) off True =
           (if unat off + 1 > unat (size_p p) then Returns (ERROR_PACKET_OPERATION_FAILED, None)
            else Returns (STATUS_SUCCESS, Some (blk ! unat off))) \<and>
         packet_peek_data g (Some p) off True n =
           (if unat off + unat n > unat (size_p p)
            then Returns (ERROR_PACKET_OPERATION_FAILED, None)
            else Returns (STATUS_SUCCESS, Some (take (unat n) (drop (unat off) blk)))) \<and>
         packet_copy_data g (Some p) off True n =
           (if n = 0 then Returns (STATUS_SUCCESS, None)
            else if unat off + unat n > unat (size_p p)
            then Returns (ERROR_PACKET_OPERATION_FAILED, None)
            else Returns (STATUS_SUCCESS, Some (take (unat n) (drop (unat off) blk)))) \<and>
         (\<forall>g' packet' off' dest'.
            packet_copy_data g' packet' off' dest' 0 = Returns (STATUS_SUCCESS, None))"
proof -
  have pb: "packet_peek_byte g (Some p) off True =
           (if unat off + 1 > unat (size_p p) then Returns (ERROR_PACKET_OPERATION_FAILED, None)
            else Returns (STATUS_SUCCESS, Some (blk ! unat off)))"
    using assms(1-3) by (auto simp: packet_peek_byte_def word_le_nat_alt)
  have pd: "packet_peek_data g (Some p) off True n =
           (if unat off + unat n > unat (size_p p)
            then Returns (ERROR_PACKET_OPERATION_FAILED, None)
            else Returns (STATUS_SUCCESS, Some (take (unat n) (drop (unat off) blk))))"
    using assms by (simp add: packet_peek_data_def u32_add_gt_iff mem_read_def)
  show ?thesis
    by (simp add: pb pd packet_copy_data_def)
qed

theorem read_bounds_witness:
  "g_initialized demo_globals \<and> data demo_packet = Some [1, 2, 3, 4] \<and>
   unat (size_p demo_packet) \<le> length [1, 2, 3, 4 :: u8] \<and>
   unat (1 :: u32) + unat (1 :: u32) < 2 ^ 32 \<and>
   packet_peek_byte demo_globals (Some demo_packet) 1 True = Returns (STATUS_SUCCESS, Some 2) \<and>
   packet_peek_data demo_globals (Some demo_packet) 1 True 1 = Returns (STATUS_SUCCESS, Some [2]) \<and>
   packet_copy_data demo_globals (Some demo_packet) 1 True 1 = Returns (STATUS_SUCCESS, Some [2]) \<and>
   packet_copy_data demo_globals (Some demo_packet) 5 True 0 = Returns (STATUS_SUCCESS, None)"
proof -
  have h1: "g_initialized demo_globals" by (simp add: demo_globals_def)
  have h2: "data demo_packet = Some [1, 2, 3, 4]" by (simp add: demo_packet_def)
  have h3: "unat (size_p demo_packet) \<le> length [1, 2, 3, 4 :: u8]" by (simp add: demo_packet_def)
  have h4: "unat (1 :: u32) + unat (1 :: u32) < 2 ^ 32" by simp
  show ?thesis
    using read_bounds [OF h1 h2 h3 h4] h1 h2 h3 by (simp add: demo_packet_def)
qed

theorem zero_length_peek_counterexample:
  "packet_peek_data demo_globals (Some demo_packet) 5 True 0 =
     Returns (ERROR_PACKET_OPERATION_FAILED, None)"
  by (simp add: packet_peek_data_def demo_globals_def demo_packet_def)

subsection \<open>Invalid calls of the pipeline\<close>

text \<open>
  Claim C10. When the subsystem is not initialised, or the packet pointer is null, or
  its data pointer is null, or its size exceeds its capacity, \<^verbatim>\<open>packet_process\<close> returns
  \<^verbatim>\<open>PACKET_RESULT_DROP\<close>, calls no processor and changes neither the packet nor the
  globals. \<^verbatim>\<open>packet_process\<close> is a total function: its recursion was shown to terminate
  where it was defined.
\<close>

theorem invalid_call_dropped:
  assumes "\<not> g_initialized g \<or> packet = None \<or>
           (\<exists>p. packet = Some p \<and> (data p = None \<or> size_p p > capacity p))"
  shows "packet_process g code packet = (PACKET_RESULT_DROP, packet, g, [])"
  using assms
  by (auto simp: packet_process.simps [of g code packet] packet_buffer_is_valid_def)

theorem invalid_call_dropped_witness:
  "packet_process demo_globals always_recirculate None =
     (PACKET_RESULT_DROP, None, demo_globals, []) \<and>
   packet_process (demo_globals\<lparr> g_initialized := False \<rparr>) always_recirculate
       (Some demo_packet) =
     (PACKET_RESULT_DROP, Some demo_packet, demo_globals\<lparr> g_initialized := False \<rparr>, []) \<and>
   packet_process demo_globals always_recirculate (Some (demo_packet\<lparr> data := None \<rparr>)) =
     (PACKET_RESULT_DROP, Some (demo_packet\<lparr> data := None \<rparr>), demo_globals, []) \<and>
   packet_process demo_globals always_recirculate (Some (demo_packet\<lparr> size_p := 5 \<rparr>)) =
     (PACKET_RESULT_DROP, Some (demo_packet\<lparr> size_p := 5 \<rparr>), demo_globals, [])"
  using invalid_call_dropped [of demo_globals None always_recirculate]
    invalid_call_dropped [of "demo_globals\<lparr> g_initialized := False \<rparr>" "Some demo_packet"
      always_recirculate]
    invalid_call_dropped [of demo_globals "Some (demo_packet\<lparr> data := None \<rparr>)"
      always_recirculate]
    invalid_call_dropped [of demo_globals "Some (demo_packet\<lparr> size_p := 5 \<rparr>)"
      always_recirculate]
  by (simp add: demo_packet_def)

section \<open>Properties of the pipeline\<close>

subsection \<open>Recirculation\<close>

lemma process_loop_recirculations:
  "process_loop code ps pkt res = (r, pkt', calls) \<Longrightarrow> res \<noteq> PACKET_RESULT_RECIRCULATE \<Longrightarrow>
     recirculations calls = (if r = PACKET_RESULT_RECIRCULATE then 1 else 0)"
proof (induction ps arbitrary: pkt res r pkt' calls)
  case Nil
  then show ?case by (simp add: recirculations_def)
next
  case (Cons p ps)
  show ?case
  proof (cases "active p \<and> callback p \<noteq> 0")
    case False
    with Cons show ?thesis by auto
  next
    case True
    obtain r1 pkt1 where c: "code (callback p) pkt (user_data p) = (r1, pkt1)"
      by (cases "code (callback p) pkt (user_data p)")
    show ?thesis
    proof (cases "r1 = PACKET_RESULT_CONSUME \<or> r1 = PACKET_RESULT_DROP \<or> r1 = PACKET_RESULT_RECIRCULATE")
      case True
      with Cons.prems \<open>active p \<and> callback p \<noteq> 0\<close> c show ?thesis
        by (auto simp: recirculations_def)
    next
      case False
      obtain r2 pkt2 calls2 where l: "process_loop code ps pkt1 r1 = (r2, pkt2, calls2)"
        by (cases "process_loop code ps pkt1 r1")
      from False have "r1 \<noteq> PACKET_RESULT_RECIRCULATE" by simp
      from Cons.IH [OF l this] Cons.prems \<open>active p \<and> callback p \<noteq> 0\<close> c l False
      show ?thesis by (auto simp: recirculations_def)
    qed
  qed
qed

lemma packet_process_bounded:
  "packet_process g code packet = (r, pk, g', calls) \<Longrightarrow>
     g' = g \<and> recirculations calls \<le> nat (16 - recursion_depth g) \<and>
     (recirculations calls = nat (16 - recursion_depth g) \<longrightarrow> r = PACKET_RESULT_DROP)"
proof (induction g code packet arbitrary: r pk g' calls rule: packet_process.induct)
  case (1 g code packet)
  show ?case
  proof (cases "g_initialized g \<and> packet_buffer_is_valid packet \<and> \<not> recursion_depth g + 1 > 16")
    case False
    with "1.prems" show ?thesis
      by (auto simp: packet_process.simps [of g code packet] recirculations_def Let_def
               split: if_splits)
  next
    case True
    define g1 where "g1 = g\<lparr> recursion_depth := recursion_depth g + 1 \<rparr>"
    obtain r1 pkt1 calls1 where
      l: "process_loop code (take (unat (g_processor_count g1)) (g_processors g1))
            (the packet) PACKET_RESULT_FORWARD = (r1, pkt1, calls1)"
      by (cases "process_loop code (take (unat (g_processor_count g1)) (g_processors g1))
            (the packet) PACKET_RESULT_FORWARD")
    have rc: "recirculations calls1 = (if r1 = PACKET_RESULT_RECIRCULATE then 1 else 0)"
      using process_loop_recirculations [OF l] by simp
    have restore: "g1\<lparr> recursion_depth := recursion_depth g1 - 1 \<rparr> = g"
      by (simp add: g1_def)
    have d1: "\<not> 16 < recursion_depth g1" using True by (simp add: g1_def)
    have eq: "packet_process g code packet =
        (if r1 = PACKET_RESULT_RECIRCULATE then
           (case packet_process g1 code (Some pkt1) of
              (r2, packet2, g2, calls2) \<Rightarrow>
                (r2, packet2, g2\<lparr> recursion_depth := recursion_depth g2 - 1 \<rparr>,
                 calls1 @ calls2))
         else (r1, Some pkt1, g, calls1))"
      using True d1 l restore
      by (simp add: packet_process.simps [of g code packet] g1_def [symmetric] Let_def)
    show ?thesis
    proof (cases "r1 = PACKET_RESULT_RECIRCULATE")
      case False
      with "1.prems" True rc show ?thesis
        by (simp add: eq)
    next
      case rec: True
      obtain r2 pk2 g2 calls2 where
        p: "packet_process g1 code (Some pkt1) = (r2, pk2, g2, calls2)"
        by (cases "packet_process g1 code (Some pkt1)")
      from "1.IH" [OF _ _ g1_def d1 l [symmetric] refl rec p] True
      have ih: "g2 = g1" "recirculations calls2 \<le> nat (16 - recursion_depth g1)"
        "recirculations calls2 = nat (16 - recursion_depth g1) \<longrightarrow> r2 = PACKET_RESULT_DROP"
        by simp_all
      from "1.prems" rec p
      have res: "r = r2" "g' = g2\<lparr> recursion_depth := recursion_depth g2 - 1 \<rparr>"
        "calls = calls1 @ calls2"
        by (simp_all add: eq)
      have app: "recirculations calls = 1 + recirculations calls2"
        using rc rec by (simp add: res recirculations_def)
      show ?thesis
        using ih res app restore True by (auto simp: g1_def)
    qed
  qed
qed

text \<open>
  Claim C2. For every packet, every registry and every behaviour of the callbacks,
  a call of \<^verbatim>\<open>packet_process\<close> that starts at recursion depth 0 returns, leaves the
  globals (with the depth counter) as they were, and makes at most 16 calls that ask for
  recirculation; when it has made 16 of them, the traversal that would be the
  seventeenth is not run and the result is \<^verbatim>\<open>PACKET_RESULT_DROP\<close>.
\<close>

theorem recirculation_bounded:
  assumes "recursion_depth g = 0"
  shows "\<exists>r pk calls. packet_process g code packet = (r, pk, g, calls) \<and>
           recirculations calls \<le> 16 \<and>
           (recirculations calls = 16 \<longrightarrow> r = PACKET_RESULT_DROP)"
proof -
  obtain r pk g' calls where p: "packet_process g code packet = (r, pk, g', calls)"
    by (cases "packet_process g code packet")
  from packet_process_bounded [OF p] assms p show ?thesis by simp
qed

lemma demo_always_recirculate:
  "packet_process demo_registry always_recirculate (Some demo_packet) =
     (PACKET_RESULT_DROP, Some demo_packet, demo_registry,
      replicate 16 (demo_processor, PACKET_RESULT_RECIRCULATE))"
  by code_simp

theorem recirculation_bounded_witness:
  "recursion_depth demo_registry = 0 \<and>
   packet_process demo_registry always_recirculate (Some demo_packet) =
     (PACKET_RESULT_DROP, Some demo_packet, demo_registry,
      replicate 16 (demo_processor, PACKET_RESULT_RECIRCULATE)) \<and>
   recirculations (replicate 16 (demo_processor, PACKET_RESULT_RECIRCULATE)) = 16"
proof -
  have d: "recursion_depth demo_registry = 0"
    by (simp add: demo_registry_def demo_globals_def)
  have "recirculations (replicate 16 (demo_processor, PACKET_RESULT_RECIRCULATE)) = 16"
    by (simp add: recirculations_def)
  with recirculation_bounded [OF d, of always_recirculate "Some demo_packet"]
    demo_always_recirculate d
  show ?thesis by simp
qed

subsection \<open>Handles\<close>

text \<open>
  Claim C7 fails on the code. Register callback 1 with priority 10 (handle 0), then
  callback 2 with priority 5 (handle 1). The sort that ends the second registration
  moves callback 2 to array element 0 and callback 1 to element 1, yet the handle
  returned for callback 2 is 1. \<^verbatim>\<open>packet_unregister_processor(1)\<close> then deactivates
  callback 1 and leaves callback 2 active.
\<close>

theorem unregister_removes_other_processor:
  "packet_register_processor demo_globals 1 10 0 True = Returns (STATUS_SUCCESS, Some 0, demo_g1) \<and>
   packet_register_processor demo_g1 2 5 0 True = Returns (STATUS_SUCCESS, Some 1, demo_g2) \<and>
   packet_unregister_processor demo_g2 1 = (STATUS_SUCCESS, demo_g3) \<and>
   map callback (filter active (g_processors demo_g2)) = [2, 1] \<and>
   map callback (filter active (g_processors demo_g3)) = [2]"
  by code_simp

subsection \<open>The order of a traversal\<close>

lemma uint_small:
  fixes x :: u32
  assumes "x < 2 ^ 31"
  shows "uint x < 2 ^ 31"
proof -
  have "uint x < uint (2 ^ 31 :: u32)" using assms by (simp only: word_less_def)
  then show ?thesis by simp
qed

lemma sint_sub_small:
  fixes x y :: u32
  assumes "x < 2 ^ 31" "y < 2 ^ 31"
  shows "sint (x - y) = uint x - uint y"
proof -
  have ux: "uint x < 2 ^ 31" using assms(1) by (rule uint_small)
  have uy: "uint y < 2 ^ 31" using assms(2) by (rule uint_small)
  have l: "LENGTH(32) - 1 = (31 :: nat)" by simp
  have "sint (x - y) = sint (word_of_int (uint x - uint y) :: u32)"
    by (subst word_sub_wi) (rule refl)
  also have "\<dots> = signed_take_bit (LENGTH(32) - 1) (uint x - uint y)"
    by (rule sint_sbintrunc')
  also have "\<dots> = uint x - uint y"
  proof -
    have "0 \<le> uint x" "0 \<le> uint y" by simp_all
    with ux uy have "- (2 ^ 31) \<le> uint x - uint y" "uint x - uint y < 2 ^ 31" by linarith+
    then show ?thesis unfolding l by (rule signed_take_bit_int_eq_self)
  qed
  finally show ?thesis .
qed

lemma compare_small:
  assumes "priority a < 2 ^ 31" "priority b < 2 ^ 31"
  shows "(compare_processors a b \<le> 0) = (priority a \<le> priority b)"
  unfolding compare_processors_def sint_sub_small [OF assms] word_le_def by simp

lemma set_qsort_insert: "set (qsort_insert cmp x ys) = insert x (set ys)"
  by (induction ys) auto

lemma length_qsort_insert: "length (qsort_insert cmp x ys) = Suc (length ys)"
  by (induction ys) auto

lemma sorted_qsort_insert:
  fixes key :: "'a \<Rightarrow> 'b :: linorder"
  assumes "\<And>a b. a \<in> insert x (set ys) \<Longrightarrow> b \<in> insert x (set ys) \<Longrightarrow>
             (cmp a b \<le> 0) = (key a \<le> key b)"
    and "sorted_wrt (\<lambda>a b. key a \<le> key b) ys"
  shows "sorted_wrt (\<lambda>a b. key a \<le> key b) (qsort_insert cmp x ys)"
  using assms
proof (induction ys)
  case Nil
  then show ?case by simp
next
  case (Cons y ys)
  show ?case
  proof (cases "cmp x y \<le> 0")
    case True
    then have xy: "key x \<le> key y" using Cons.prems(1) [of x y] by simp
    have "\<forall>z \<in> set ys. key y \<le> key z" using Cons.prems(2) by simp
    with xy have "\<forall>z \<in> set (y # ys). key x \<le> key z" by auto
    with True Cons.prems(2) show ?thesis by simp
  next
    case False
    then have yx: "key y \<le> key x" using Cons.prems(1) [of x y] by simp
    have "sorted_wrt (\<lambda>a b. key a \<le> key b) (qsort_insert cmp x ys)"
      using Cons.prems by (intro Cons.IH) auto
    moreover have "\<forall>z \<in> set (qsort_insert cmp x ys). key y \<le> key z"
      using yx Cons.prems(2) by (simp add: set_qsort_insert)
    ultimately show ?thesis using False by simp
  qed
qed

lemma qsort_Cons: "qsort cmp (x # xs) = qsort_insert cmp x (qsort cmp xs)"
  by (simp add: qsort_def)

lemma set_qsort: "set (qsort cmp xs) = set xs"
  by (induction xs) (simp_all add: qsort_Cons set_qsort_insert, simp add: qsort_def)

lemma length_qsort: "length (qsort cmp xs) = length xs"
  by (induction xs) (simp_all add: qsort_Cons length_qsort_insert, simp add: qsort_def)

lemma sorted_qsort:
  fixes key :: "'a \<Rightarrow> 'b :: linorder"
  assumes "\<And>a b. a \<in> set xs \<Longrightarrow> b \<in> set xs \<Longrightarrow> (cmp a b \<le> 0) = (key a \<le> key b)"
  shows "sorted_wrt (\<lambda>a b. key a \<le> key b) (qsort cmp xs)"
  using assms
proof (induction xs)
  case Nil
  then show ?case by (simp add: qsort_def)
next
  case (Cons x xs)
  have "sorted_wrt (\<lambda>a b. key a \<le> key b) (qsort cmp xs)"
    using Cons.prems by (intro Cons.IH) auto
  then show ?case
    unfolding qsort_Cons
    using Cons.prems by (intro sorted_qsort_insert) (auto simp: set_qsort)
qed

lemma snapshot_sort_processors:
  "snapshot (sort_processors g) = qsort compare_processors (snapshot g)"
  by (simp add: snapshot_def sort_processors_def length_qsort min_def)

lemma sorted_after_sort:
  assumes "\<forall>p \<in> set (g_processors g). priority p < 2 ^ 31"
  shows "sorted_wrt (\<lambda>a b. priority a \<le> priority b) (snapshot (sort_processors g))"
  unfolding snapshot_sort_processors
proof (rule sorted_qsort)
  fix a b assume "a \<in> set (snapshot g)" "b \<in> set (snapshot g)"
  then have "a \<in> set (g_processors g)" "b \<in> set (g_processors g)"
    by (auto simp: snapshot_def dest: in_set_takeD)
  with assms show "(compare_processors a b \<le> 0) = (priority a \<le> priority b)"
    by (intro compare_small) auto
qed

lemma process_loop_calls:
  "process_loop code ps pkt res = (r, pkt', calls) \<Longrightarrow>
     prefix (map fst calls) (filter (\<lambda>p. active p \<and> callback p \<noteq> 0) ps) \<and>
     (\<forall>c \<in> set (butlast calls). snd c = PACKET_RESULT_FORWARD) \<and>
     r = (if calls = [] then res else snd (last calls))"
proof (induction ps arbitrary: pkt res r pkt' calls)
  case Nil
  then show ?case by simp
next
  case (Cons p ps)
  show ?case
  proof (cases "active p \<and> callback p \<noteq> 0")
    case False
    with Cons.prems have "process_loop code ps pkt res = (r, pkt', calls)" by auto
    from Cons.IH [OF this] False show ?thesis by auto
  next
    case True
    obtain r1 pkt1 where c: "code (callback p) pkt (user_data p) = (r1, pkt1)"
      by (cases "code (callback p) pkt (user_data p)")
    show ?thesis
    proof (cases "r1 = PACKET_RESULT_CONSUME \<or> r1 = PACKET_RESULT_DROP \<or> r1 = PACKET_RESULT_RECIRCULATE")
      case stop: True
      with Cons.prems True c have "calls = [(p, r1)]" "r = r1" by auto
      with True show ?thesis by simp
    next
      case False
      then have fw: "r1 = PACKET_RESULT_FORWARD" by (cases r1) auto
      obtain r2 pkt2 calls2 where l: "process_loop code ps pkt1 r1 = (r2, pkt2, calls2)"
        by (cases "process_loop code ps pkt1 r1")
      from Cons.prems True c l fw
      have res: "r = r2" "pkt' = pkt2" "calls = (p, r1) # calls2" by auto
      from Cons.IH [OF l]
      have ih: "prefix (map fst calls2) (filter (\<lambda>p. active p \<and> callback p \<noteq> 0) ps)"
        "\<forall>c \<in> set (butlast calls2). snd c = PACKET_RESULT_FORWARD"
        "r2 = (if calls2 = [] then r1 else snd (last calls2))" by simp_all
      show ?thesis
      proof (cases "calls2 = []")
        case True
        with ih \<open>active p \<and> callback p \<noteq> 0\<close> show ?thesis by (simp add: res)
      next
        case False
        with ih \<open>active p \<and> callback p \<noteq> 0\<close> fw show ?thesis by (simp add: res)
      qed
    qed
  qed
qed

lemma sorted_after_register:
  assumes "packet_register_processor g cb prio ud ho = Returns (STATUS_SUCCESS, h, g')"
    and "\<forall>p \<in> set (g_processors g). priority p < 2 ^ 31" and "prio < 2 ^ 31"
  shows "sorted_wrt (\<lambda>a b. priority a \<le> priority b) (snapshot g')"
proof -
  define slot where "slot = find_unused_slot (take MAX_PACKET_PROCESSORS (g_processors g)) 0"
  define new where "new = \<lparr> callback = cb, priority = prio, user_data = ud, active = True \<rparr>"
  define G where "G = g\<lparr> g_processors := (g_processors g)[slot := new],
      g_processor_count := (if of_nat slot \<ge> g_processor_count g then of_nat slot + 1
                            else g_processor_count g) \<rparr>"
  from assms(1) have g': "g' = sort_processors G"
    by (simp add: packet_register_processor_def Let_def slot_def [symmetric] new_def [symmetric]
          G_def split: if_splits)
  have "set (g_processors G) \<subseteq> insert new (set (g_processors g))"
    by (simp add: G_def set_update_subset_insert)
  with assms(2,3) have "\<forall>p \<in> set (g_processors G). priority p < 2 ^ 31"
    by (auto simp: new_def)
  then show ?thesis unfolding g' by (rule sorted_after_sort)
qed

lemma sorted_after_unregister:
  assumes "packet_unregister_processor g handle = (STATUS_SUCCESS, g')"
    and "\<forall>p \<in> set (g_processors g). priority p < 2 ^ 31"
  shows "sorted_wrt (\<lambda>a b. priority a \<le> priority b) (snapshot g')"
proof -
  define old where "old = (g_processors g ! unat handle)\<lparr> active := False, callback := 0, user_data := 0 \<rparr>"
  define procs where "procs = (g_processors g)[unat handle := old]"
  define G where "G = g\<lparr> g_processors := procs,
      g_processor_count := (if handle = g_processor_count g - 1
                     then of_nat (shrink_count procs (unat (g_processor_count g)))
                     else g_processor_count g) \<rparr>"
  from assms(1) have g': "g' = sort_processors G" and h: "unat handle < MAX_PACKET_PROCESSORS"
    by (simp_all add: packet_unregister_processor_def Let_def old_def [symmetric]
          procs_def [symmetric] G_def split: if_splits)
  have sub: "set (g_processors G) \<subseteq> insert old (set (g_processors g))"
    by (simp add: G_def procs_def set_update_subset_insert)
  have "\<forall>p \<in> set (g_processors G). priority p < 2 ^ 31"
  proof
    fix p assume "p \<in> set (g_processors G)"
    with sub have "p = old \<or> p \<in> set (g_processors g)" by auto
    then show "priority p < 2 ^ 31"
    proof
      assume "p \<in> set (g_processors g)"
      with assms(2) show ?thesis by simp
    next
      assume p: "p = old"
      show ?thesis
      proof (cases "unat handle < length (g_processors g)")
        case True
        then have "g_processors g ! unat handle \<in> set (g_processors g)" by simp
        with assms(2) show ?thesis by (simp add: p old_def)
      next
        case False
        then have "g_processors G = g_processors g"
          by (simp add: G_def procs_def list_update_beyond not_less)
        with \<open>p \<in> set (g_processors G)\<close> assms(2) show ?thesis by simp
      qed
    qed
  qed
  then show ?thesis unfolding g' by (rule sorted_after_sort)
qed

lemma sorted_after_init:
  assumes "packet_init g = (STATUS_SUCCESS, g')"
  shows "sorted_wrt (\<lambda>a b. priority a \<le> priority b) (snapshot g')"
  using assms by (auto simp: packet_init_def snapshot_def split: if_splits)

lemma prefix_sorted_wrt: "prefix xs ys \<Longrightarrow> sorted_wrt P ys \<Longrightarrow> sorted_wrt P xs"
  by (auto simp: prefix_def sorted_wrt_append)

lemma packet_process_first_traversal:
  assumes "g_initialized g" "packet_buffer_is_valid (Some pkt)" "recursion_depth g < 16"
    and "process_loop code (snapshot g) pkt PACKET_RESULT_FORWARD = (r, pkt', calls)"
  shows "\<exists>r2 pk2 rest. packet_process g code (Some pkt) = (r2, pk2, g, calls @ rest) \<and>
           (r \<noteq> PACKET_RESULT_RECIRCULATE \<longrightarrow> rest = [] \<and> r2 = r \<and> pk2 = Some pkt')"
proof -
  define g1 where "g1 = g\<lparr> recursion_depth := recursion_depth g + 1 \<rparr>"
  have l: "process_loop code (take (unat (g_processor_count g1)) (g_processors g1))
            (the (Some pkt)) PACKET_RESULT_FORWARD = (r, pkt', calls)"
    using assms(4) by (simp add: g1_def snapshot_def)
  have d1: "\<not> 16 < recursion_depth g1" using assms(3) by (simp add: g1_def)
  have restore: "g1\<lparr> recursion_depth := recursion_depth g1 - 1 \<rparr> = g"
    by (simp add: g1_def)
  have eq: "packet_process g code (Some pkt) =
        (if r = PACKET_RESULT_RECIRCULATE then
           (case packet_process g1 code (Some pkt') of
              (r2, packet2, g2, calls2) \<Rightarrow>
                (r2, packet2, g2\<lparr> recursion_depth := recursion_depth g2 - 1 \<rparr>,
                 calls @ calls2))
         else (r, Some pkt', g, calls))"
    using assms(1,2) d1 l restore
    by (simp add: packet_process.simps [of g code "Some pkt"] g1_def [symmetric] Let_def)
  show ?thesis
  proof (cases "r = PACKET_RESULT_RECIRCULATE")
    case False
    then show ?thesis by (simp add: eq)
  next
    case True
    obtain r2 pk2 g2 calls2 where
      p: "packet_process g1 code (Some pkt') = (r2, pk2, g2, calls2)"
      by (cases "packet_process g1 code (Some pkt')")
    from packet_process_bounded [OF p] have "g2 = g1" by simp
    with True p restore show ?thesis by (simp add: eq)
  qed
qed

text \<open>
  Claim C6, as the code has it. Take the registry as \<^verbatim>\<open>packet_init\<close>, a successful
  registration or a successful unregistration leaves it, all priorities being below
  \<open>2^31\<close>. Then the local copy is sorted by ascending priority; the processors called
  in one traversal are, in array order, an initial part of the active processors of the
  copy, so a processor of lower priority is called strictly before one of higher
  priority; every call but the last of a traversal returned Forward, so a Drop or
  Consume (or a recirculation request) is the last call of its traversal and its result
  is the traversal's; and \<^verbatim>\<open>packet_process\<close> starts with exactly these calls. Nothing is
  said about the order of equal priorities.
\<close>

theorem traversal_in_priority_order:
  assumes change:
      "packet_init g = (STATUS_SUCCESS, g') \<or>
       packet_register_processor g cb prio ud ho = Returns (STATUS_SUCCESS, h, g') \<or>
       packet_unregister_processor g handle = (STATUS_SUCCESS, g')"
    and small: "\<forall>p \<in> set (g_processors g). priority p < 2 ^ 31" "prio < 2 ^ 31"
    and run: "process_loop code (snapshot g') pkt PACKET_RESULT_FORWARD = (r, pkt', calls)"
  shows "sorted_wrt (\<lambda>a b. priority a \<le> priority b) (snapshot g') \<and>
         prefix (map fst calls) (filter (\<lambda>p. active p \<and> callback p \<noteq> 0) (snapshot g')) \<and>
         (\<forall>i j. i < length calls \<longrightarrow> j < length calls \<longrightarrow>
            priority (fst (calls ! i)) < priority (fst (calls ! j)) \<longrightarrow> i < j) \<and>
         (\<forall>c \<in> set (butlast calls). snd c = PACKET_RESULT_FORWARD) \<and>
         r = (if calls = [] then PACKET_RESULT_FORWARD else snd (last calls)) \<and>
         (g_initialized g' \<longrightarrow> packet_buffer_is_valid (Some pkt) \<longrightarrow> recursion_depth g' < 16 \<longrightarrow>
            (\<exists>r2 pk2 rest. packet_process g' code (Some pkt) = (r2, pk2, g', calls @ rest) \<and>
               (r \<noteq> PACKET_RESULT_RECIRCULATE \<longrightarrow> rest = [] \<and> r2 = r \<and> pk2 = Some pkt')))"
proof -
  have s: "sorted_wrt (\<lambda>a b. priority a \<le> priority b) (snapshot g')"
    using change small sorted_after_init sorted_after_register sorted_after_unregister
    by blast
  note lp = process_loop_calls [OF run]
  from lp have pre: "prefix (map fst calls) (filter (\<lambda>p. active p \<and> callback p \<noteq> 0) (snapshot g'))"
    by simp
  have "sorted_wrt (\<lambda>a b. priority a \<le> priority b) (filter (\<lambda>p. active p \<and> callback p \<noteq> 0) (snapshot g'))"
    using s by (rule sorted_wrt_filter)
  with pre have sc: "sorted_wrt (\<lambda>a b. priority a \<le> priority b) (map fst calls)"
    by (rule prefix_sorted_wrt)
  have ord: "\<forall>i j. i < length calls \<longrightarrow> j < length calls \<longrightarrow>
            priority (fst (calls ! i)) < priority (fst (calls ! j)) \<longrightarrow> i < j"
  proof (intro allI impI)
    fix i j assume i: "i < length calls" and j: "j < length calls"
      and lt: "priority (fst (calls ! i)) < priority (fst (calls ! j))"
    show "i < j"
    proof (rule ccontr)
      assume "\<not> i < j"
      then have "j = i \<or> j < i" by auto
      then show False
      proof
        assume "j = i" with lt show False by simp
      next
        assume "j < i"
        with sc i have "priority (map fst calls ! j) \<le> priority (map fst calls ! i)"
          by (simp add: sorted_wrt_iff_nth_less)
        with i j lt show False by simp
      qed
    qed
  qed
  have pp: "g_initialized g' \<longrightarrow> packet_buffer_is_valid (Some pkt) \<longrightarrow> recursion_depth g' < 16 \<longrightarrow>
            (\<exists>r2 pk2 rest. packet_process g' code (Some pkt) = (r2, pk2, g', calls @ rest) \<and>
               (r \<noteq> PACKET_RESULT_RECIRCULATE \<longrightarrow> rest = [] \<and> r2 = r \<and> pk2 = Some pkt'))"
    using packet_process_first_traversal [OF _ _ _ run] by blast
  from s pre ord lp pp show ?thesis by simp
qed

theorem ties_not_in_insertion_order:
  "packet_register_processor demo_globals 1 5 0 True = Returns (STATUS_SUCCESS, Some 0, tie_g1) \<and>
   packet_register_processor tie_g1 2 5 0 True = Returns (STATUS_SUCCESS, Some 1, tie_g2) \<and>
   packet_register_processor tie_g2 3 5 0 True = Returns (STATUS_SUCCESS, Some 2, tie_g3) \<and>
   packet_unregister_processor tie_g3 0 = (STATUS_SUCCESS, tie_g4) \<and>
   packet_register_processor tie_g4 4 5 0 True = Returns (STATUS_SUCCESS, Some 0, tie_g5) \<and>
   map (\<lambda>c. callback (fst c))
     (calls_of (packet_process tie_g5 always_forward (Some demo_packet))) = [4, 2, 3]"
  by code_simp

text \<open>Priorities from \<open>2^31\<close> on: the comparator reads \<open>0xFFFFFFFF\<close> as \<open>-1\<close>, so
  that processor is called before the one of priority 0.\<close>

lemma priority_cast_example:
  "map (\<lambda>c. priority (fst c))
     (calls_of (packet_process
        (after_register (packet_register_processor
           (after_register (packet_register_processor demo_globals 1 0 0 True))
           2 0xFFFFFFFF 0 True))
        always_forward (Some demo_packet))) = [0xFFFFFFFF, 0]"
  by code_simp

lemma demo_register_second:
  "packet_register_processor demo_g1 2 5 0 True = Returns (STATUS_SUCCESS, Some 1, demo_g2)"
  by code_simp

lemma demo_g1_small: "list_all (\<lambda>p. priority p < 2 ^ 31) (g_processors demo_g1)"
  by code_simp

lemma demo_loop:
  "process_loop always_forward (snapshot demo_g2) demo_packet PACKET_RESULT_FORWARD =
     (PACKET_RESULT_FORWARD, demo_packet, demo_calls)"
  by code_simp

lemma demo_g2_ready:
  "g_initialized demo_g2 \<and> packet_buffer_is_valid (Some demo_packet) \<and> recursion_depth demo_g2 < 16"
  by code_simp

theorem traversal_in_priority_order_witness:
  "packet_register_processor demo_g1 2 5 0 True = Returns (STATUS_SUCCESS, Some 1, demo_g2) \<and>
   list_all (\<lambda>p. priority p < 2 ^ 31) (g_processors demo_g1) \<and>
   (5 :: u32) < 2 ^ 31 \<and>
   process_loop always_forward (snapshot demo_g2) demo_packet PACKET_RESULT_FORWARD =
     (PACKET_RESULT_FORWARD, demo_packet, demo_calls) \<and>
   g_initialized demo_g2 \<and> packet_buffer_is_valid (Some demo_packet) \<and>
   recursion_depth demo_g2 < 16 \<and>
   sorted_wrt (\<lambda>a b. priority a \<le> priority b) (snapshot demo_g2) \<and>
   prefix (map fst demo_calls) (filter (\<lambda>p. active p \<and> callback p \<noteq> 0) (snapshot demo_g2)) \<and>
   packet_process demo_g2 always_forward (Some demo_packet) =
     (PACKET_RESULT_FORWARD, Some demo_packet, demo_g2, demo_calls)"
proof -
  have small: "\<forall>p \<in> set (g_processors demo_g1). priority p < 2 ^ 31"
    using demo_g1_small by (simp add: list_all_iff)
  have five: "(5 :: u32) < 2 ^ 31" by simp
  note T = traversal_in_priority_order
    [OF disjI2 [OF disjI1 [OF demo_register_second]] small five demo_loop]
  from T demo_g2_ready
  have "\<exists>r2 pk2 rest. packet_process demo_g2 always_forward (Some demo_packet) =
          (r2, pk2, demo_g2, demo_calls @ rest) \<and>
          (PACKET_RESULT_FORWARD \<noteq> PACKET_RESULT_RECIRCULATE \<longrightarrow>
             rest = [] \<and> r2 = PACKET_RESULT_FORWARD \<and> pk2 = Some demo_packet)"
    by blast
  then have "packet_process demo_g2 always_forward (Some demo_packet) =
     (PACKET_RESULT_FORWARD, Some demo_packet, demo_g2, demo_calls)" by auto
  with T demo_register_second demo_g1_small five demo_loop demo_g2_ready
  show ?thesis by blast
qed

section \<open>Properties of the ARP cache\<close>

subsection \<open>Requests\<close>

lemma arp_send_request_frame:
  "\<exists>st. arp_send_request pl w a p = (st, w) \<or>
        arp_send_request pl w a p =
          (st, w\<lparr> transmitted := transmitted w @ [(p, arp_request_frame pl a)] \<rparr>)"
  by (auto simp: arp_send_request_def arp_request_frame_def Let_def
           split: option.splits prod.splits)

lemma arp_send_request_ready:
  assumes "link_ready pl w p"
  shows "arp_send_request pl w a p =
          (hw_sim_transmit_packet pl p,
           w\<lparr> transmitted := transmitted w @ [(p, arp_request_frame pl a)] \<rparr>)"
  using assms
  by (simp add: link_ready_def arp_send_request_def arp_request_frame_def Let_def
        packet_buffer_alloc_def malloc_def packet_transmit_def packet_buffer_is_valid_def)

lemma arp_send_request_keeps:
  "g_arp_table (snd (arp_send_request pl w a p)) = g_arp_table w \<and>
   time_counter (snd (arp_send_request pl w a p)) = time_counter w \<and>
   packet_state (snd (arp_send_request pl w a p)) = packet_state w \<and>
   port_sent (snd (arp_send_request pl w a p)) = port_sent w \<and>
   mac_table_added (snd (arp_send_request pl w a p)) = mac_table_added w"
  using arp_send_request_frame [of pl w a p] by auto

subsection \<open>Lookup of an absent address\<close>

lemma allocate_keeps_stats:
  "arp_allocate_entry t = Some t1 \<Longrightarrow>
     stats t1 = stats t \<and> initialized t1 = initialized t \<and> timeout t1 = timeout t"
  by (auto simp: arp_allocate_entry_def split: if_splits option.splits prod.splits)

lemma find_chain_insert:
  "arp_find_entry (chain_insert t e) (ip e) = Some e"
  by (simp add: arp_find_entry_def chain_insert_def)

lemma link_ready_cong:
  "packet_state w' = packet_state w \<Longrightarrow> link_ready pl w' p = link_ready pl w p"
  by (simp add: link_ready_def)

lemma arp_lookup_absent:
  assumes init: "initialized (g_arp_table w)"
    and absent: "arp_find_entry (g_arp_table w) a = None"
    and alloc: "arp_allocate_entry (g_arp_table w) = Some t1"
  shows "\<exists>w'. arp_lookup pl w (Some a) True pr = (ARP_STATUS_PENDING, None, None, w') \<and>
            hash_table (g_arp_table w') =
              hash_table (chain_insert t1 (incomplete_entry a (time_counter w))) \<and>
            entry_count (g_arp_table w') = entry_count t1 + 1 \<and>
            arp_find_entry (g_arp_table w') a = Some (incomplete_entry a (time_counter w)) \<and>
            requests_sent (stats (g_arp_table w')) = requests_sent (stats (g_arp_table w)) + 1 \<and>
            (transmitted w' = transmitted w \<or>
             transmitted w' = transmitted w @ [(0, arp_request_frame pl a)]) \<and>
            (link_ready pl w 0 \<longrightarrow>
               transmitted w' = transmitted w @ [(0, arp_request_frame pl a)])"
proof -
  define e where "e = incomplete_entry a (time_counter w)"
  define w1 where "w1 = w\<lparr> time_counter := time_counter w + 1, g_arp_table := chain_insert t1 e \<rparr>"
  obtain st w2 where sr: "arp_send_request pl w1 a 0 = (st, w2)"
    by (cases "arp_send_request pl w1 a 0")
  define w3 where "w3 = w2\<lparr> g_arp_table := (g_arp_table w2)
        \<lparr> stats := (stats (g_arp_table w2))
             \<lparr> requests_sent := requests_sent (stats (g_arp_table w2)) + 1 \<rparr> \<rparr> \<rparr>"
  have lk: "arp_lookup pl w (Some a) True pr = (ARP_STATUS_PENDING, None, None, w3)"
    using init absent alloc sr
    by (simp add: arp_lookup_def get_current_time_def e_def incomplete_entry_def w1_def w3_def)
  from arp_send_request_keeps [of pl w1 a 0] sr
  have keep: "g_arp_table w2 = chain_insert t1 e" by (simp add: w1_def)
  have ip: "ip e = a" by (simp add: e_def incomplete_entry_def)
  have f: "arp_find_entry (g_arp_table w3) a = Some e"
    using find_chain_insert [of t1 e] ip
    by (simp add: w3_def keep arp_find_entry_def)
  have rs: "requests_sent (stats (g_arp_table w3)) = requests_sent (stats (g_arp_table w)) + 1"
    using allocate_keeps_stats [OF alloc] by (simp add: w3_def keep chain_insert_def)
  have tx: "transmitted w3 = transmitted w \<or>
             transmitted w3 = transmitted w @ [(0, arp_request_frame pl a)]"
    using arp_send_request_frame [of pl w1 a 0] sr by (auto simp: w3_def w1_def)
  have rdy: "link_ready pl w 0 \<longrightarrow>
               transmitted w3 = transmitted w @ [(0, arp_request_frame pl a)]"
  proof
    assume "link_ready pl w 0"
    then have "link_ready pl w1 0" by (simp add: link_ready_def w1_def)
    from arp_send_request_ready [OF this, of a] sr show
      "transmitted w3 = transmitted w @ [(0, arp_request_frame pl a)]"
      by (auto simp: w3_def w1_def)
  qed
  have "hash_table (g_arp_table w3) = hash_table (chain_insert t1 e)"
    "entry_count (g_arp_table w3) = entry_count t1 + 1"
    by (simp_all add: w3_def keep chain_insert_def)
  with lk f rs tx rdy show ?thesis unfolding e_def by blast
qed

subsection \<open>Chains\<close>

lemma chains_distinct_iff:
  "chains_distinct t = (\<forall>b < ARP_CACHE_SIZE. distinct (map ip (hash_table t b)))"
  by (auto simp: chains_distinct_def list_all_iff)

lemma bucket_of_less: "bucket_of a < ARP_CACHE_SIZE"
  by (simp add: bucket_of_def ARP_CACHE_SIZE_def)

lemma find_chain_update:
  assumes "\<And>e. ip (f e) = ip e"
  shows "find (\<lambda>e. ip e = a') (chain_update a f es) =
           (if a' = a then map_option f (find (\<lambda>e. ip e = a) es)
            else find (\<lambda>e. ip e = a') es)"
  using assms by (induction es) auto

lemma ips_chain_update:
  assumes "\<And>e. ip (f e) = ip e"
  shows "map ip (chain_update a f es) = map ip es"
  using assms by (induction es) auto

lemma find_None_iff_ip: "(find (\<lambda>e. ip e = a) es = None) = (a \<notin> ip ` set es)"
  by (auto simp: find_None_iff)

lemma find_remove_nth:
  assumes "distinct (map ip es)"
  shows "find (\<lambda>e. ip e = a) (take j es @ drop (Suc j) es) = find (\<lambda>e. ip e = a) es \<or>
         find (\<lambda>e. ip e = a) (take j es @ drop (Suc j) es) = None"
  using assms
proof (induction es arbitrary: j)
  case Nil
  then show ?case by simp
next
  case (Cons e es)
  show ?case
  proof (cases j)
    case 0
    show ?thesis
    proof (cases "ip e = a")
      case True
      with Cons.prems have "a \<notin> ip ` set es" by auto
      then have "find (\<lambda>e. ip e = a) es = None" by (simp add: find_None_iff_ip)
      with 0 show ?thesis by simp
    next
      case False
      with 0 show ?thesis by simp
    qed
  next
    case (Suc k)
    from Cons.prems have "distinct (map ip es)" by simp
    from Cons.IH [OF this, of k] Suc show ?thesis by auto
  qed
qed

lemma distinct_remove_nth:
  "distinct (map ip es) \<Longrightarrow> distinct (map ip (take j es @ drop (Suc j) es))"
proof -
  assume d: "distinct (map ip es)"
  have "map ip (take j es @ drop (Suc j) es) = take j (map ip es) @ drop (Suc j) (map ip es)"
    by (simp add: take_map drop_map)
  moreover have "distinct (take j (map ip es) @ drop (Suc j) (map ip es))"
    using d set_take_disj_set_drop_if_distinct [of "map ip es" j "Suc j"]
    by simp
  ultimately show ?thesis by simp
qed

lemma allocate_entry_state:
  assumes cd: "chains_distinct t" and al: "arp_allocate_entry t = Some t1"
  shows "chains_distinct t1 \<and>
         (\<forall>a. entry_state t1 a = entry_state t a \<or> entry_state t1 a = None)"
proof (cases "unat (entry_count t) \<ge> ARP_CACHE_SIZE")
  case False
  with al have "t1 = t" by (simp add: arp_allocate_entry_def split: if_splits)
  with cd show ?thesis by simp
next
  case True
  with al obtain b j where
    t1: "t1 = t\<lparr> hash_table :=
                        (hash_table t)(b := take j (hash_table t b) @ drop (Suc j) (hash_table t b)),
                      entry_count := entry_count t - 1 \<rparr>"
    by (auto simp: arp_allocate_entry_def split: option.splits)
  have d: "\<And>k. k < ARP_CACHE_SIZE \<Longrightarrow> distinct (map ip (hash_table t k))"
    using cd by (simp add: chains_distinct_iff)
  have "chains_distinct t1"
    unfolding chains_distinct_iff
  proof (intro allI impI)
    fix k assume k: "k < ARP_CACHE_SIZE"
    show "distinct (map ip (hash_table t1 k))"
    proof (cases "k = b")
      case True
      from distinct_remove_nth [OF d [OF k], of j] True show ?thesis by (simp add: t1)
    next
      case False
      with d [OF k] show ?thesis by (simp add: t1)
    qed
  qed
  moreover have "\<forall>a. entry_state t1 a = entry_state t a \<or> entry_state t1 a = None"
  proof
    fix a
    show "entry_state t1 a = entry_state t a \<or> entry_state t1 a = None"
    proof (cases "bucket_of a = b")
      case False
      then show ?thesis by (simp add: entry_state_def arp_find_entry_def t1)
    next
      case True
      from find_remove_nth [OF d [OF bucket_of_less, of a], of a j] True
      show ?thesis by (auto simp: entry_state_def arp_find_entry_def t1)
    qed
  qed
  ultimately show ?thesis by simp
qed

subsection \<open>Aging\<close>

lemma age_chain_fst:
  "fst (age_chain pl now tmo es w) = List.map_filter (age_entry now tmo) es"
proof (induction es arbitrary: w)
  case Nil
  then show ?case by (simp add: map_filter_simps)
next
  case (Cons e es)
  note ih = Cons.IH
  consider
      (expired) "state e = ARP_STATE_REACHABLE \<and> now - updated_time e > tmo"
    | (retry) "\<not> (state e = ARP_STATE_REACHABLE \<and> now - updated_time e > tmo)"
        "state e = ARP_STATE_INCOMPLETE \<and>
           now - updated_time e > of_nat (ARP_REQUEST_RETRY_INTERVAL_MS div 1000)"
        "retry_count e < ARP_REQUEST_RETRY_COUNT"
    | (failed) "\<not> (state e = ARP_STATE_REACHABLE \<and> now - updated_time e > tmo)"
        "state e = ARP_STATE_INCOMPLETE \<and>
           now - updated_time e > of_nat (ARP_REQUEST_RETRY_INTERVAL_MS div 1000)"
        "\<not> retry_count e < ARP_REQUEST_RETRY_COUNT"
    | (kept) "\<not> (state e = ARP_STATE_REACHABLE \<and> now - updated_time e > tmo)"
        "\<not> (state e = ARP_STATE_INCOMPLETE \<and>
           now - updated_time e > of_nat (ARP_REQUEST_RETRY_INTERVAL_MS div 1000))"
    by blast
  then show ?case
  proof cases
    case expired
    obtain es' a s w' where r: "age_chain pl now tmo es w = (es', a, s, w')"
      by (cases "age_chain pl now tmo es w") auto
    have "age_chain pl now tmo (e # es) w = (es', Suc a, s, w')"
      using expired r by simp
    moreover have "age_entry now tmo e = None" using expired by (simp add: age_entry_def)
    moreover have "es' = List.map_filter (age_entry now tmo) es" using ih [of w] r by simp
    ultimately show ?thesis by (simp add: map_filter_simps)
  next
    case retry
    obtain es' a s w' where
      r: "age_chain pl now tmo es (snd (arp_send_request pl w (ip e) (port_index e)))
            = (es', a, s, w')"
      by (cases "age_chain pl now tmo es (snd (arp_send_request pl w (ip e) (port_index e)))")
        auto
    have "age_chain pl now tmo (e # es) w =
        (e\<lparr> retry_count := retry_count e + 1, updated_time := now \<rparr> # es', a, Suc s, w')"
      using retry r by simp
    moreover have "age_entry now tmo e =
        Some (e\<lparr> retry_count := retry_count e + 1, updated_time := now \<rparr>)"
      using retry by (simp add: age_entry_def)
    moreover have "es' = List.map_filter (age_entry now tmo) es"
      using ih [of "snd (arp_send_request pl w (ip e) (port_index e))"] r by simp
    ultimately show ?thesis by (simp add: map_filter_simps)
  next
    case failed
    obtain es' a s w' where r: "age_chain pl now tmo es w = (es', a, s, w')"
      by (cases "age_chain pl now tmo es w") auto
    have "age_chain pl now tmo (e # es) w = (e\<lparr> state := ARP_STATE_FAILED \<rparr> # es', a, s, w')"
      using failed r by simp
    moreover have "age_entry now tmo e = Some (e\<lparr> state := ARP_STATE_FAILED \<rparr>)"
      using failed by (simp add: age_entry_def)
    moreover have "es' = List.map_filter (age_entry now tmo) es" using ih [of w] r by simp
    ultimately show ?thesis by (simp add: map_filter_simps)
  next
    case kept
    obtain es' a s w' where r: "age_chain pl now tmo es w = (es', a, s, w')"
      by (cases "age_chain pl now tmo es w") auto
    have "age_chain pl now tmo (e # es) w = (e # es', a, s, w')"
      using kept r by auto
    moreover have "age_entry now tmo e = Some e" using kept by (auto simp: age_entry_def)
    moreover have "es' = List.map_filter (age_entry now tmo) es" using ih [of w] r by simp
    ultimately show ?thesis by (simp add: map_filter_simps)
  qed
qed

lemma age_entry_ip: "age_entry now tmo e = Some e' \<Longrightarrow> ip e' = ip e"
  by (auto simp: age_entry_def split: if_splits)

lemma age_entry_state:
  "age_entry now tmo e = None \<Longrightarrow> state e = ARP_STATE_REACHABLE"
  "age_entry now tmo e = Some e' \<Longrightarrow>
     state e' = state e \<or> (state e = ARP_STATE_INCOMPLETE \<and> state e' = ARP_STATE_FAILED)"
  by (auto simp: age_entry_def split: if_splits)

lemma ips_map_filter:
  assumes "\<And>e e'. g e = Some e' \<Longrightarrow> ip e' = ip e"
  shows "ip ` set (List.map_filter g es) \<subseteq> ip ` set es"
  using assms by (induction es) (auto simp: map_filter_simps split: option.splits)

lemma find_map_filter:
  assumes "distinct (map ip es)" and g: "\<And>e e'. g e = Some e' \<Longrightarrow> ip e' = ip e"
  shows "find (\<lambda>e. ip e = a) (List.map_filter g es) = Option.bind (find (\<lambda>e. ip e = a) es) g"
  using assms(1)
proof (induction es)
  case Nil
  then show ?case by (simp add: map_filter_simps)
next
  case (Cons e es)
  from Cons have ih: "find (\<lambda>e. ip e = a) (List.map_filter g es) =
      Option.bind (find (\<lambda>e. ip e = a) es) g" by simp
  show ?case
  proof (cases "ip e = a")
    case False
    show ?thesis
    proof (cases "g e")
      case None
      with False ih show ?thesis by (simp add: map_filter_simps)
    next
      case (Some e')
      with g have "ip e' = ip e" by simp
      with False Some ih show ?thesis by (simp add: map_filter_simps)
    qed
  next
    case True
    show ?thesis
    proof (cases "g e")
      case None
      from Cons.prems True have "a \<notin> ip ` set es" by auto
      with ips_map_filter [of g es] g have "a \<notin> ip ` set (List.map_filter g es)" by blast
      then have "find (\<lambda>e. ip e = a) (List.map_filter g es) = None"
        by (simp add: find_None_iff_ip)
      with True None show ?thesis by (simp add: map_filter_simps)
    next
      case (Some e')
      with g have "ip e' = ip e" by simp
      with True Some show ?thesis by (simp add: map_filter_simps)
    qed
  qed
qed

lemma distinct_map_filter:
  assumes "distinct (map ip es)" and g: "\<And>e e'. g e = Some e' \<Longrightarrow> ip e' = ip e"
  shows "distinct (map ip (List.map_filter g es))"
  using assms(1)
proof (induction es)
  case Nil
  then show ?case by (simp add: map_filter_simps)
next
  case (Cons e es)
  then have ih: "distinct (map ip (List.map_filter g es))" by simp
  show ?case
  proof (cases "g e")
    case None
    with ih show ?thesis by (simp add: map_filter_simps)
  next
    case (Some e')
    with g have "ip e' = ip e" by simp
    moreover from Cons.prems have "ip e \<notin> ip ` set es" by auto
    with ips_map_filter [of g es] g have "ip e \<notin> ip ` set (List.map_filter g es)" by blast
    ultimately show ?thesis using Some ih by (simp add: map_filter_simps)
  qed
qed

lemma fold_age_bucket_table:
  "fst (fold (age_bucket pl now tmo) [0..<n] (ht, ag, se, w)) b =
     (if b < n then List.map_filter (age_entry now tmo) (ht b) else ht b)"
proof (induction n arbitrary: b)
  case 0
  then show ?case by simp
next
  case (Suc n)
  obtain ht1 ag1 se1 w1 where
    f: "fold (age_bucket pl now tmo) [0..<n] (ht, ag, se, w) = (ht1, ag1, se1, w1)"
    by (cases "fold (age_bucket pl now tmo) [0..<n] (ht, ag, se, w)") auto
  from Suc.IH [of n] f have n: "ht1 n = ht n" by simp
  from Suc.IH [of b] f have b: "ht1 b = (if b < n then List.map_filter (age_entry now tmo) (ht b) else ht b)"
    by simp
  obtain es' a' s' w' where ac: "age_chain pl now tmo (ht1 n) w1 = (es', a', s', w')"
    by (cases "age_chain pl now tmo (ht1 n) w1") auto
  from age_chain_fst [of pl now tmo "ht1 n" w1] ac
  have es': "es' = List.map_filter (age_entry now tmo) (ht n)" by (simp add: n)
  have s1: "fold (age_bucket pl now tmo) [0..<Suc n] (ht, ag, se, w) =
          age_bucket pl now tmo n (ht1, ag1, se1, w1)"
    using f by simp
  have s2: "age_bucket pl now tmo n (ht1, ag1, se1, w1) = (ht1(n := es'), ag1 + a', se1 + s', w')"
    using ac by (simp add: age_bucket_def)
  show ?case unfolding s1 s2 using es' b by auto
qed

subsection \<open>The state of an entry under each operation\<close>

lemma entry_state_hash_table:
  "hash_table t' = hash_table t \<Longrightarrow> entry_state t' a = entry_state t a"
  by (simp add: entry_state_def arp_find_entry_def)

lemma chains_distinct_hash_table:
  "hash_table t' = hash_table t \<Longrightarrow> chains_distinct t' = chains_distinct t"
  by (simp add: chains_distinct_def)

lemma chain_insert_state:
  assumes cd: "chains_distinct t" and absent: "arp_find_entry t (ip e) = None"
  shows "chains_distinct (chain_insert t e) \<and>
         (\<forall>a. entry_state (chain_insert t e) a =
                (if a = ip e then Some (state e) else entry_state t a))"
proof -
  have "ip e \<notin> ip ` set (hash_table t (bucket_of (ip e)))"
    using absent by (simp add: arp_find_entry_def find_None_iff_ip)
  then have "chains_distinct (chain_insert t e)"
    using cd by (auto simp: chains_distinct_iff chain_insert_def)
  moreover have "\<forall>a. entry_state (chain_insert t e) a =
                (if a = ip e then Some (state e) else entry_state t a)"
    by (auto simp: entry_state_def arp_find_entry_def chain_insert_def)
  ultimately show ?thesis by simp
qed

lemma chain_update_state:
  assumes cd: "chains_distinct t" and f: "\<And>e. ip (f e) = ip e"
    and present: "arp_find_entry t a = Some e0"
    and t': "hash_table t' = (hash_table t)(bucket_of a := chain_update a f (hash_table t (bucket_of a)))"
  shows "chains_distinct t' \<and>
         (\<forall>a'. entry_state t' a' = (if a' = a then Some (state (f e0)) else entry_state t a'))"
proof -
  have "chains_distinct t'"
    using cd by (auto simp: chains_distinct_iff t' ips_chain_update [of f, OF f])
  moreover have "\<forall>a'. entry_state t' a' = (if a' = a then Some (state (f e0)) else entry_state t a')"
    using present
    by (auto simp: entry_state_def arp_find_entry_def t' find_chain_update [of f, OF f])
  ultimately show ?thesis by simp
qed

lemma add_state:
  assumes cd: "chains_distinct (g_arp_table w)"
  shows "chains_distinct (g_arp_table (snd (arp_add_entry w (Some a) (Some m) p))) \<and>
         state_change (Add_or_update a m p) a'
           (entry_state (g_arp_table w) a')
           (entry_state (g_arp_table (snd (arp_add_entry w (Some a) (Some m) p))) a')"
proof (cases "initialized (g_arp_table w)")
  case False
  with cd show ?thesis by (simp add: arp_add_entry_def state_change_def)
next
  case init: True
  let ?t = "g_arp_table w"
  show ?thesis
  proof (cases "arp_find_entry ?t a")
    case (Some e0)
    define f where "f = (\<lambda>e :: arp_entry_t. e\<lparr> mac := m, port_index := p,
                              updated_time := time_counter w, state := ARP_STATE_REACHABLE \<rparr>)"
    define t' where "t' = g_arp_table (snd (arp_add_entry w (Some a) (Some m) p))"
    have ht: "hash_table t' =
        (hash_table ?t)(bucket_of a := chain_update a f (hash_table ?t (bucket_of a)))"
      using init Some by (simp add: t'_def arp_add_entry_def get_current_time_def f_def)
    have fi: "\<And>e. ip (f e) = ip e" by (simp add: f_def)
    from chain_update_state [OF cd fi Some ht]
    show ?thesis
      by (auto simp: t'_def [symmetric] state_change_def f_def)
  next
    case None
    show ?thesis
    proof (cases "arp_allocate_entry ?t")
      case no: None
      with init None cd show ?thesis by (simp add: arp_add_entry_def state_change_def)
    next
      case (Some t1)
      define e where "e = \<lparr> ip = a, mac = m, state = ARP_STATE_REACHABLE,
                              created_time = time_counter w, updated_time = time_counter w,
                              port_index = p, retry_count = 0 \<rparr>"
      define t' where "t' = g_arp_table (snd (arp_add_entry w (Some a) (Some m) p))"
      have ht: "hash_table t' = hash_table (chain_insert t1 e)"
        using init None Some by (simp add: t'_def arp_add_entry_def get_current_time_def e_def)
      from allocate_entry_state [OF cd Some]
      have cd1: "chains_distinct t1"
        and st1: "\<And>x. entry_state t1 x = entry_state ?t x \<or> entry_state t1 x = None"
        by auto
      have "entry_state ?t a = None" using None by (simp add: entry_state_def)
      with st1 [of a] have "entry_state t1 a = None" by auto
      then have ab1: "arp_find_entry t1 (ip e) = None" by (simp add: entry_state_def e_def)
      from chain_insert_state [OF cd1 ab1]
      have "chains_distinct t'"
        and "entry_state t' a' = (if a' = a then Some ARP_STATE_REACHABLE else entry_state t1 a')"
        using chains_distinct_hash_table [OF ht] entry_state_hash_table [OF ht]
        by (simp_all add: e_def)
      with st1 [of a'] show ?thesis
        by (auto simp: t'_def [symmetric] state_change_def)
    qed
  qed
qed

lemma lookup_state:
  assumes cd: "chains_distinct (g_arp_table w)"
  shows "chains_distinct (g_arp_table (snd (snd (snd (arp_lookup pl w (Some a) True pr))))) \<and>
         state_change (Lookup a) a'
           (entry_state (g_arp_table w) a')
           (entry_state (g_arp_table (snd (snd (snd (arp_lookup pl w (Some a) True pr))))) a')"
proof (cases "initialized (g_arp_table w)")
  case False
  with cd show ?thesis by (simp add: arp_lookup_def state_change_def)
next
  case init: True
  let ?t = "g_arp_table w"
  show ?thesis
  proof (cases "arp_find_entry ?t a")
    case (Some e0)
    define t' where "t' = g_arp_table (snd (snd (snd (arp_lookup pl w (Some a) True pr))))"
    have ht: "hash_table t' = hash_table ?t"
      using init Some by (simp add: t'_def arp_lookup_def)
    from chains_distinct_hash_table [OF ht] entry_state_hash_table [OF ht] cd
    show ?thesis by (simp add: t'_def [symmetric] state_change_def)
  next
    case None
    show ?thesis
    proof (cases "arp_allocate_entry ?t")
      case no: None
      with init None cd show ?thesis by (simp add: arp_lookup_def state_change_def)
    next
      case (Some t1)
      define t' where "t' = g_arp_table (snd (snd (snd (arp_lookup pl w (Some a) True pr))))"
      define e where "e = incomplete_entry a (time_counter w)"
      from arp_lookup_absent [OF init None Some, of pl pr]
      have ht: "hash_table t' = hash_table (chain_insert t1 e)"
        by (auto simp: t'_def e_def)
      from allocate_entry_state [OF cd Some]
      have cd1: "chains_distinct t1"
        and st1: "\<And>x. entry_state t1 x = entry_state ?t x \<or> entry_state t1 x = None"
        by auto
      have n0: "entry_state ?t a = None" using None by (simp add: entry_state_def)
      with st1 [of a] have "entry_state t1 a = None" by auto
      then have ab1: "arp_find_entry t1 (ip e) = None"
        by (simp add: entry_state_def e_def incomplete_entry_def)
      from chain_insert_state [OF cd1 ab1]
      have "chains_distinct t'"
        and "entry_state t' a' = (if a' = a then Some ARP_STATE_INCOMPLETE else entry_state t1 a')"
        using chains_distinct_hash_table [OF ht] entry_state_hash_table [OF ht]
        by (simp_all add: e_def incomplete_entry_def)
      with st1 [of a'] n0 show ?thesis
        by (auto simp: t'_def [symmetric] state_change_def)
    qed
  qed
qed

lemma age_table:
  assumes init: "initialized (g_arp_table w)"
  shows "hash_table (g_arp_table (snd (arp_age_entries pl w))) b =
           (if b < ARP_CACHE_SIZE
            then List.map_filter (age_entry (time_counter w) (timeout (g_arp_table w)))
                   (hash_table (g_arp_table w) b)
            else hash_table (g_arp_table w) b)"
proof -
  define w1 where "w1 = w\<lparr> time_counter := time_counter w + 1 \<rparr>"
  obtain ht ag se w2 where
    f: "fold (age_bucket pl (time_counter w) (timeout (g_arp_table w))) [0..<ARP_CACHE_SIZE]
          (hash_table (g_arp_table w), 0, 0, w1) = (ht, ag, se, w2)"
    by (cases "fold (age_bucket pl (time_counter w) (timeout (g_arp_table w)))
          [0..<ARP_CACHE_SIZE] (hash_table (g_arp_table w), 0, 0, w1)") auto
  have "hash_table (g_arp_table (snd (arp_age_entries pl w))) = ht"
    using init f by (simp add: arp_age_entries_def get_current_time_def w1_def)
  moreover from fold_age_bucket_table
    [of pl "time_counter w" "timeout (g_arp_table w)" ARP_CACHE_SIZE
        "hash_table (g_arp_table w)" 0 0 w1 b] f
  have "ht b = (if b < ARP_CACHE_SIZE
            then List.map_filter (age_entry (time_counter w) (timeout (g_arp_table w)))
                   (hash_table (g_arp_table w) b)
            else hash_table (g_arp_table w) b)" by simp
  ultimately show ?thesis by simp
qed

lemma age_state:
  assumes cd: "chains_distinct (g_arp_table w)"
  shows "chains_distinct (g_arp_table (snd (arp_age_entries pl w))) \<and>
         state_change Aging a'
           (entry_state (g_arp_table w) a')
           (entry_state (g_arp_table (snd (arp_age_entries pl w))) a')"
proof (cases "initialized (g_arp_table w)")
  case False
  with cd show ?thesis by (simp add: arp_age_entries_def state_change_def)
next
  case init: True
  let ?g = "age_entry (time_counter w) (timeout (g_arp_table w))"
  let ?t = "g_arp_table w"
  let ?t' = "g_arp_table (snd (arp_age_entries pl w))"
  have gi: "\<And>e e'. ?g e = Some e' \<Longrightarrow> ip e' = ip e" by (rule age_entry_ip)
  have d: "\<And>b. b < ARP_CACHE_SIZE \<Longrightarrow> distinct (map ip (hash_table ?t b))"
    using cd by (simp add: chains_distinct_iff)
  have "chains_distinct ?t'"
    using d distinct_map_filter [of _ ?g, OF _ gi]
    by (simp add: chains_distinct_iff age_table [OF init])
  moreover have "state_change Aging a' (entry_state ?t a') (entry_state ?t' a')"
  proof -
    have "arp_find_entry ?t' a' = Option.bind (arp_find_entry ?t a') ?g"
      using find_map_filter [of "hash_table ?t (bucket_of a')" ?g a', OF d [OF bucket_of_less] gi]
      by (simp add: arp_find_entry_def age_table [OF init] bucket_of_less)
    then show ?thesis
      using age_entry_state [of "time_counter w" "timeout ?t"]
      by (cases "arp_find_entry ?t a'"; cases "?g (the (arp_find_entry ?t a'))")
         (auto simp: entry_state_def state_change_def)
  qed
  ultimately show ?thesis by simp
qed

lemma flush_state:
  assumes cd: "chains_distinct (g_arp_table w)"
  shows "chains_distinct (g_arp_table (snd (arp_flush w))) \<and>
         state_change Flush a'
           (entry_state (g_arp_table w) a')
           (entry_state (g_arp_table (snd (arp_flush w))) a')"
  using cd
  by (auto simp: arp_flush_def state_change_def chains_distinct_iff entry_state_def
        arp_find_entry_def bucket_of_less)

lemma apply_op_state:
  assumes cd: "chains_distinct (g_arp_table w)"
  shows "chains_distinct (g_arp_table (apply_op pl op w)) \<and>
         state_change op a
           (entry_state (g_arp_table w) a) (entry_state (g_arp_table (apply_op pl op w)) a)"
proof (cases op)
  case (Add_or_update a0 m p)
  with add_state [OF cd, of a0 m p a] show ?thesis by (simp add: apply_op_def)
next
  case (Lookup a0)
  with lookup_state [OF cd, of pl a0 True a] show ?thesis by (simp add: apply_op_def)
next
  case Aging
  with age_state [OF cd, of pl a] show ?thesis by (simp add: apply_op_def)
next
  case Flush
  with flush_state [OF cd, of a] show ?thesis by (simp add: apply_op_def)
qed

subsection \<open>A run that ends in a Failed entry\<close>

lemma age_chain_keeps:
  "time_counter (snd (snd (snd (age_chain pl now tmo es w)))) = time_counter w \<and>
   g_arp_table (snd (snd (snd (age_chain pl now tmo es w)))) = g_arp_table w \<and>
   packet_state (snd (snd (snd (age_chain pl now tmo es w)))) = packet_state w \<and>
   port_sent (snd (snd (snd (age_chain pl now tmo es w)))) = port_sent w \<and>
   mac_table_added (snd (snd (snd (age_chain pl now tmo es w)))) = mac_table_added w"
proof (induction es arbitrary: w)
  case Nil
  then show ?case by simp
next
  case (Cons e es)
  show ?case
    using Cons [of w] Cons [of "snd (arp_send_request pl w (ip e) (port_index e))"]
      arp_send_request_keeps [of pl w "ip e" "port_index e"]
    by (simp add: case_prod_beta)
qed

lemma fold_age_bucket_keeps:
  "time_counter (snd (snd (snd (fold (age_bucket pl now tmo) [0..<n] (ht, ag, se, w))))) =
     time_counter w \<and>
   packet_state (snd (snd (snd (fold (age_bucket pl now tmo) [0..<n] (ht, ag, se, w))))) =
     packet_state w \<and>
   port_sent (snd (snd (snd (fold (age_bucket pl now tmo) [0..<n] (ht, ag, se, w))))) =
     port_sent w \<and>
   mac_table_added (snd (snd (snd (fold (age_bucket pl now tmo) [0..<n] (ht, ag, se, w))))) =
     mac_table_added w"
proof (induction n)
  case 0
  then show ?case by simp
next
  case (Suc n)
  obtain ht1 ag1 se1 w1 where
    f: "fold (age_bucket pl now tmo) [0..<n] (ht, ag, se, w) = (ht1, ag1, se1, w1)"
    by (cases "fold (age_bucket pl now tmo) [0..<n] (ht, ag, se, w)") auto
  obtain es' a' s' w' where ac: "age_chain pl now tmo (ht1 n) w1 = (es', a', s', w')"
    by (cases "age_chain pl now tmo (ht1 n) w1") auto
  have s1: "fold (age_bucket pl now tmo) [0..<Suc n] (ht, ag, se, w) =
          age_bucket pl now tmo n (ht1, ag1, se1, w1)"
    using f by simp
  have s2: "age_bucket pl now tmo n (ht1, ag1, se1, w1) = (ht1(n := es'), ag1 + a', se1 + s', w')"
    using ac by (simp add: age_bucket_def)
  show ?case
    unfolding s1 s2 using Suc f age_chain_keeps [of pl now tmo "ht1 n" w1] ac by simp
qed

lemma age_keeps:
  assumes init: "initialized (g_arp_table w)"
  shows "time_counter (snd (arp_age_entries pl w)) = time_counter w + 1 \<and>
         timeout (g_arp_table (snd (arp_age_entries pl w))) = timeout (g_arp_table w) \<and>
         initialized (g_arp_table (snd (arp_age_entries pl w))) \<and>
         port_sent (snd (arp_age_entries pl w)) = port_sent w"
proof -
  define w1 where "w1 = w\<lparr> time_counter := time_counter w + 1 \<rparr>"
  obtain ht ag se w2 where
    f: "fold (age_bucket pl (time_counter w) (timeout (g_arp_table w))) [0..<ARP_CACHE_SIZE]
          (hash_table (g_arp_table w), 0, 0, w1) = (ht, ag, se, w2)"
    by (cases "fold (age_bucket pl (time_counter w) (timeout (g_arp_table w)))
          [0..<ARP_CACHE_SIZE] (hash_table (g_arp_table w), 0, 0, w1)") auto
  from fold_age_bucket_keeps
    [of pl "time_counter w" "timeout (g_arp_table w)" ARP_CACHE_SIZE
        "hash_table (g_arp_table w)" 0 0 w1] f
  have "time_counter w2 = time_counter w + 1" "port_sent w2 = port_sent w"
    by (simp_all add: w1_def)
  then show ?thesis
    using init f by (simp add: arp_age_entries_def get_current_time_def w1_def)
qed

lemma age_find:
  assumes cd: "chains_distinct (g_arp_table w)" and init: "initialized (g_arp_table w)"
  shows "arp_find_entry (g_arp_table (snd (arp_age_entries pl w))) a =
           Option.bind (arp_find_entry (g_arp_table w) a)
             (age_entry (time_counter w) (timeout (g_arp_table w)))"
proof -
  let ?g = "age_entry (time_counter w) (timeout (g_arp_table w))"
  have gi: "\<And>e e'. ?g e = Some e' \<Longrightarrow> ip e' = ip e" by (rule age_entry_ip)
  have d: "distinct (map ip (hash_table (g_arp_table w) (bucket_of a)))"
    using cd bucket_of_less [of a] by (simp add: chains_distinct_iff)
  from find_map_filter [of "hash_table (g_arp_table w) (bucket_of a)" ?g a, OF d gi]
  show ?thesis
    by (simp add: arp_find_entry_def age_table [OF init] bucket_of_less)
qed

lemma aging_step:
  assumes t: "tracked w n a e" and g: "age_entry n ARP_CACHE_TIMEOUT_SEC e = Some e'"
  shows "tracked (apply_op pl Aging w) (n + 1) a e'"
proof -
  from t have cd: "chains_distinct (g_arp_table w)" and init: "initialized (g_arp_table w)"
    and tmo: "timeout (g_arp_table w) = ARP_CACHE_TIMEOUT_SEC" and n: "time_counter w = n"
    and f: "arp_find_entry (g_arp_table w) a = Some e"
    by (simp_all add: tracked_def)
  from age_state [OF cd, of pl a] age_keeps [OF init, of pl] age_find [OF cd init, of pl a]
  show ?thesis
    using tmo n f g by (simp add: tracked_def apply_op_def)
qed

lemma allocate_in_init_table: "arp_allocate_entry arp_init_table = Some arp_init_table"
proof -
  have "linked_entries arp_init_table = 0"
    by (simp add: linked_entries_def arp_init_table_def)
  then show ?thesis
    by (simp add: arp_allocate_entry_def arp_init_table_def ARP_CACHE_SIZE_def)
qed

lemma chains_distinct_init_table: "chains_distinct arp_init_table"
  by (simp add: chains_distinct_iff arp_init_table_def)

lemma lookup_in_demo_world:
  "tracked (apply_op demo_platform (Lookup demo_ip) demo_arp_world) 1 demo_ip
     (incomplete_entry demo_ip 0)"
proof -
  have cd: "chains_distinct (g_arp_table demo_arp_world)"
    using chains_distinct_init_table by (simp add: demo_arp_world_def)
  have init: "initialized (g_arp_table demo_arp_world)"
    by (simp add: demo_arp_world_def arp_init_table_def)
  have absent: "arp_find_entry (g_arp_table demo_arp_world) demo_ip = None"
    by (simp add: demo_arp_world_def arp_init_table_def arp_find_entry_def)
  have alloc: "arp_allocate_entry (g_arp_table demo_arp_world) = Some arp_init_table"
    using allocate_in_init_table by (simp add: demo_arp_world_def)
  define w' where "w' = apply_op demo_platform (Lookup demo_ip) demo_arp_world"
  have lk: "arp_lookup demo_platform demo_arp_world (Some demo_ip) True True =
          (fst (arp_lookup demo_platform demo_arp_world (Some demo_ip) True True), None, None, w')
          \<and> arp_find_entry (g_arp_table w') demo_ip =
              Some (incomplete_entry demo_ip (time_counter demo_arp_world))"
    using arp_lookup_absent [OF init absent alloc, of demo_platform True]
    by (auto simp: w'_def apply_op_def)
  have tc: "time_counter w' = 1 \<and> timeout (g_arp_table w') = ARP_CACHE_TIMEOUT_SEC \<and>
            initialized (g_arp_table w')"
    using init absent alloc
      arp_send_request_keeps [of demo_platform _ demo_ip 0]
    by (simp add: w'_def apply_op_def arp_lookup_def get_current_time_def case_prod_beta
          demo_arp_world_def chain_insert_def arp_init_table_def)
  from lookup_state [OF cd, of demo_platform demo_ip True demo_ip]
  have "chains_distinct (g_arp_table w')" by (simp add: w'_def apply_op_def)
  moreover have "time_counter demo_arp_world = 0" by (simp add: demo_arp_world_def)
  ultimately show ?thesis
    unfolding w'_def [symmetric] tracked_def using lk tc by simp
qed

lemma add_tracked:
  assumes t: "tracked w n a e"
  shows "entry_state (g_arp_table (apply_op pl (Add_or_update a m p) w)) a =
           Some ARP_STATE_REACHABLE"
proof -
  from t have cd: "chains_distinct (g_arp_table w)" and init: "initialized (g_arp_table w)"
    and f: "arp_find_entry (g_arp_table w) a = Some e"
    by (simp_all add: tracked_def)
  define f' where "f' = (\<lambda>e :: arp_entry_t. e\<lparr> mac := m, port_index := p,
                              updated_time := time_counter w, state := ARP_STATE_REACHABLE \<rparr>)"
  define t' where "t' = g_arp_table (apply_op pl (Add_or_update a m p) w)"
  have ht: "hash_table t' =
        (hash_table (g_arp_table w))
          (bucket_of a := chain_update a f' (hash_table (g_arp_table w) (bucket_of a)))"
    using init f
    by (simp add: t'_def apply_op_def arp_add_entry_def get_current_time_def f'_def)
  have fi: "\<And>e. ip (f' e) = ip e" by (simp add: f'_def)
  from chain_update_state [OF cd fi f ht]
  show ?thesis by (simp add: t'_def [symmetric] f'_def)
qed

lemma demo_aged_world:
  "tracked (fold (apply_op demo_platform) (Lookup demo_ip # replicate 8 Aging) demo_arp_world)
     9 demo_ip
     ((incomplete_entry demo_ip 0)
        \<lparr> retry_count := 3, updated_time := 6, state := ARP_STATE_FAILED \<rparr>)"
proof -
  let ?pl = demo_platform
  let ?e = "incomplete_entry demo_ip 0"
  define w1 where "w1 = apply_op ?pl (Lookup demo_ip) demo_arp_world"
  define w2 where "w2 = apply_op ?pl Aging w1"
  define w3 where "w3 = apply_op ?pl Aging w2"
  define w4 where "w4 = apply_op ?pl Aging w3"
  define w5 where "w5 = apply_op ?pl Aging w4"
  define w6 where "w6 = apply_op ?pl Aging w5"
  define w7 where "w7 = apply_op ?pl Aging w6"
  define w8 where "w8 = apply_op ?pl Aging w7"
  define w9 where "w9 = apply_op ?pl Aging w8"
  note c = age_entry_def incomplete_entry_def ARP_REQUEST_RETRY_INTERVAL_MS_def
    ARP_REQUEST_RETRY_COUNT_def ARP_CACHE_TIMEOUT_SEC_def
  have t1: "tracked w1 1 demo_ip ?e"
    using lookup_in_demo_world by (simp add: w1_def)
  have t2: "tracked w2 2 demo_ip ?e"
    using aging_step [OF t1, of ?e ?pl] by (simp add: w2_def c)
  have t3: "tracked w3 3 demo_ip (?e\<lparr> retry_count := 1, updated_time := 2 \<rparr>)"
    using aging_step [OF t2, of "?e\<lparr> retry_count := 1, updated_time := 2 \<rparr>" ?pl]
    by (simp add: w3_def c)
  have t4: "tracked w4 4 demo_ip (?e\<lparr> retry_count := 1, updated_time := 2 \<rparr>)"
    using aging_step [OF t3, of "?e\<lparr> retry_count := 1, updated_time := 2 \<rparr>" ?pl]
    by (simp add: w4_def c)
  have t5: "tracked w5 5 demo_ip (?e\<lparr> retry_count := 2, updated_time := 4 \<rparr>)"
    using aging_step [OF t4, of "?e\<lparr> retry_count := 2, updated_time := 4 \<rparr>" ?pl]
    by (simp add: w5_def c)
  have t6: "tracked w6 6 demo_ip (?e\<lparr> retry_count := 2, updated_time := 4 \<rparr>)"
    using aging_step [OF t5, of "?e\<lparr> retry_count := 2, updated_time := 4 \<rparr>" ?pl]
    by (simp add: w6_def c)
  have t7: "tracked w7 7 demo_ip (?e\<lparr> retry_count := 3, updated_time := 6 \<rparr>)"
    using aging_step [OF t6, of "?e\<lparr> retry_count := 3, updated_time := 6 \<rparr>" ?pl]
    by (simp add: w7_def c)
  have t8: "tracked w8 8 demo_ip (?e\<lparr> retry_count := 3, updated_time := 6 \<rparr>)"
    using aging_step [OF t7, of "?e\<lparr> retry_count := 3, updated_time := 6 \<rparr>" ?pl]
    by (simp add: w8_def c)
  have t9: "tracked w9 9 demo_ip
      (?e\<lparr> retry_count := 3, updated_time := 6, state := ARP_STATE_FAILED \<rparr>)"
    using aging_step [OF t8,
        of "?e\<lparr> retry_count := 3, updated_time := 6, state := ARP_STATE_FAILED \<rparr>" ?pl]
    by (simp add: w9_def c)
  have "fold (apply_op ?pl) (Lookup demo_ip # replicate 8 Aging) demo_arp_world = w9"
    by (simp add: numeral_eq_Suc w1_def w2_def w3_def w4_def w5_def w6_def w7_def w8_def w9_def)
  with t9 show ?thesis by simp
qed

text \<open>
  Claim C4, as the code has it. Take any sequence of cache operations that starts
  from a table in which no chain holds an address twice. The operation at position
  \<open>i\<close> changes the state of the entry for an address \<open>a\<close> only as follows. Add or
  update of \<open>a\<close> makes the entry Reachable from whatever it was, absent and Failed
  included; lookup of \<open>a\<close> creates an Incomplete entry when there was none; both may
  free the entry of another address (the oldest one, when the cache is full). Aging
  frees a Reachable entry or moves an Incomplete one to Failed. Flush frees the entry.
  Otherwise the state stays as it is; no operation assigns Stale, Delay or Probe, and
  flush leaves no Incomplete entry behind.
\<close>

theorem arp_state_changes:
  assumes "chains_distinct (g_arp_table w)" and "i < length ops"
  shows "state_change (ops ! i) a
           (entry_state (g_arp_table (fold (apply_op pl) (take i ops) w)) a)
           (entry_state (g_arp_table (fold (apply_op pl) (take (Suc i) ops) w)) a)"
proof -
  have inv: "chains_distinct (g_arp_table (fold (apply_op pl) xs w))" for xs
  proof (induction xs rule: rev_induct)
    case Nil
    from assms(1) show ?case by simp
  next
    case (snoc x xs)
    with apply_op_state [of "fold (apply_op pl) xs w" pl x a] show ?case by simp
  qed
  have "fold (apply_op pl) (take (Suc i) ops) w =
          apply_op pl (ops ! i) (fold (apply_op pl) (take i ops) w)"
    using assms(2) by (simp add: take_Suc_conv_app_nth)
  with apply_op_state [OF inv [of "take i ops"], of pl "ops ! i" a] show ?thesis by simp
qed

text \<open>
  An instance: the tenth operation of a run that looks the neighbour up, ages the cache
  eight times and then adds the neighbour.
\<close>

theorem arp_state_changes_witness:
  "chains_distinct (g_arp_table demo_arp_world) \<and>
   (9 :: nat) < length (Lookup demo_ip # replicate 8 Aging @ [Add_or_update demo_ip demo_mac 1]) \<and>
   state_change ((Lookup demo_ip # replicate 8 Aging @ [Add_or_update demo_ip demo_mac 1]) ! 9)
     demo_ip
     (entry_state (g_arp_table (fold (apply_op demo_platform)
        (take 9 (Lookup demo_ip # replicate 8 Aging @ [Add_or_update demo_ip demo_mac 1]))
        demo_arp_world)) demo_ip)
     (entry_state (g_arp_table (fold (apply_op demo_platform)
        (take (Suc 9) (Lookup demo_ip # replicate 8 Aging @ [Add_or_update demo_ip demo_mac 1]))
        demo_arp_world)) demo_ip)"
proof -
  have cd: "chains_distinct (g_arp_table demo_arp_world)"
    using chains_distinct_init_table by (simp add: demo_arp_world_def)
  have len: "(9 :: nat) <
      length (Lookup demo_ip # replicate 8 Aging @ [Add_or_update demo_ip demo_mac 1])"
    by simp
  from arp_state_changes [OF cd len, of demo_ip demo_platform] cd len
  show ?thesis by blast
qed

text \<open>
  An entry does go from Failed to Reachable. Start from the initialised, empty cache
  and look the neighbour up: the entry is Incomplete. Eight passes of aging later the
  three retries are used up and the entry is Failed. \<^verbatim>\<open>arp_add_entry\<close> then sets this very
  entry Reachable.
\<close>

theorem failed_entry_becomes_reachable:
  "entry_state
     (g_arp_table
        (fold (apply_op demo_platform) (Lookup demo_ip # replicate 8 Aging) demo_arp_world))
     demo_ip = Some ARP_STATE_FAILED \<and>
   entry_state
     (g_arp_table
        (fold (apply_op demo_platform)
           (Lookup demo_ip # replicate 8 Aging @ [Add_or_update demo_ip demo_mac 1])
           demo_arp_world))
     demo_ip = Some ARP_STATE_REACHABLE"
proof -
  note t = demo_aged_world
  have "entry_state
     (g_arp_table
        (fold (apply_op demo_platform) (Lookup demo_ip # replicate 8 Aging) demo_arp_world))
     demo_ip = Some ARP_STATE_FAILED"
    using t by (simp add: tracked_def entry_state_def)
  moreover have "fold (apply_op demo_platform)
           (Lookup demo_ip # replicate 8 Aging @ [Add_or_update demo_ip demo_mac 1])
           demo_arp_world =
        apply_op demo_platform (Add_or_update demo_ip demo_mac 1)
          (fold (apply_op demo_platform) (Lookup demo_ip # replicate 8 Aging) demo_arp_world)"
    by simp
  ultimately show ?thesis
    using add_tracked [OF t, of demo_platform demo_mac 1] by simp
qed

subsection \<open>Sample worlds\<close>

lemma demo_cache_entry:
  "initialized (g_arp_table (demo_cache st)) \<and>
   arp_find_entry (g_arp_table (demo_cache st)) demo_ip = Some (demo_entry st)"
  using find_chain_insert [of arp_init_table "demo_entry st"]
  by (simp add: demo_cache_def demo_entry_def chain_insert_def arp_init_table_def)

lemma demo_link_ready: "link_ready demo_platform demo_arp_world 0"
  by (simp add: link_ready_def demo_platform_def demo_arp_world_def demo_globals_def
        demo_heap_def sizeof_ethernet_header_t_def)

lemma demo_world_absent:
  "initialized (g_arp_table demo_arp_world) \<and>
   arp_find_entry (g_arp_table demo_arp_world) demo_ip = None \<and>
   arp_allocate_entry (g_arp_table demo_arp_world) = Some arp_init_table"
  using allocate_in_init_table
  by (simp add: demo_arp_world_def arp_init_table_def arp_find_entry_def)

subsection \<open>Lookup and received frames\<close>

lemma arp_lookup_full:
  assumes init: "initialized (g_arp_table w)"
    and absent: "arp_find_entry (g_arp_table w) a = None"
    and alloc: "arp_allocate_entry (g_arp_table w) = None"
  shows "arp_lookup pl w (Some a) True pr = (STATUS_RESOURCE_EXHAUSTED, None, None, w)"
  using assms by (simp add: arp_lookup_def)

lemma add_entry_learns:
  assumes init: "initialized (g_arp_table w)"
    and room: "arp_find_entry (g_arp_table w) a \<noteq> None \<or>
               arp_allocate_entry (g_arp_table w) \<noteq> None"
  shows "\<exists>w'. arp_add_entry w (Some a) (Some m) p = (STATUS_SUCCESS, w') \<and>
           (\<exists>e. arp_find_entry (g_arp_table w') a = Some e \<and> mac e = m \<and>
                 port_index e = p \<and> state e = ARP_STATE_REACHABLE) \<and>
           initialized (g_arp_table w') \<and>
           port_sent w' = port_sent w \<and> transmitted w' = transmitted w \<and>
           replies_sent (stats (g_arp_table w')) = replies_sent (stats (g_arp_table w)) \<and>
           requests_received (stats (g_arp_table w')) =
             requests_received (stats (g_arp_table w))"
proof (cases "arp_find_entry (g_arp_table w) a")
  case (Some e0)
  define f where "f = (\<lambda>e :: arp_entry_t. e\<lparr> mac := m, port_index := p,
                            updated_time := time_counter w, state := ARP_STATE_REACHABLE \<rparr>)"
  have fi: "\<And>e. ip (f e) = ip e" by (simp add: f_def)
  have "find (\<lambda>e. ip e = a) (chain_update a f (hash_table (g_arp_table w) (bucket_of a))) =
          Some (f e0)"
    using Some by (simp add: find_chain_update [of f, OF fi] arp_find_entry_def)
  then show ?thesis
    using init Some
    by (simp add: arp_add_entry_def get_current_time_def arp_find_entry_def f_def)
next
  case None
  with room obtain t1 where al: "arp_allocate_entry (g_arp_table w) = Some t1" by auto
  from allocate_keeps_stats [OF al] init None al
  show ?thesis
    by (simp add: arp_add_entry_def get_current_time_def arp_find_entry_def chain_insert_def)
qed

text \<open>
  Claim C3, as the code has it. On an initialised table, \<^verbatim>\<open>arp_lookup\<close> of an address whose
  entry is Reachable returns \<^verbatim>\<open>STATUS_SUCCESS\<close> with the MAC and the port of the entry and counts a
  cache hit; for an Incomplete entry it returns \<^verbatim>\<open>ARP_STATUS_PENDING\<close> and for a Failed entry
  \<^verbatim>\<open>STATUS_NOT_FOUND\<close>, leaving everything as it was. For an absent address it returns
  \<^verbatim>\<open>STATUS_RESOURCE_EXHAUSTED\<close> when no cache entry can be allocated; otherwise it returns
  \<^verbatim>\<open>ARP_STATUS_PENDING\<close>, chains a new Incomplete entry, adds one to \<^verbatim>\<open>requests_sent\<close> and
  transmits at most one ARP request, on port 0: exactly one when the packet subsystem is
  initialised, the buffer is granted and port 0 is valid and up.
\<close>

theorem arp_lookup_by_state:
  assumes init: "initialized (g_arp_table w)"
  shows "(\<forall>e. arp_find_entry (g_arp_table w) a = Some e \<longrightarrow> state e = ARP_STATE_REACHABLE \<longrightarrow>
            arp_lookup pl w (Some a) True True =
              (STATUS_SUCCESS, Some (mac e), Some (port_index e),
               w\<lparr> g_arp_table := (g_arp_table w)
                     \<lparr> stats := (stats (g_arp_table w))
                          \<lparr> cache_hits := cache_hits (stats (g_arp_table w)) + 1 \<rparr> \<rparr> \<rparr>)) \<and>
         (\<forall>e. arp_find_entry (g_arp_table w) a = Some e \<longrightarrow> state e = ARP_STATE_INCOMPLETE \<longrightarrow>
            arp_lookup pl w (Some a) True True = (ARP_STATUS_PENDING, None, None, w)) \<and>
         (\<forall>e. arp_find_entry (g_arp_table w) a = Some e \<longrightarrow> state e = ARP_STATE_FAILED \<longrightarrow>
            arp_lookup pl w (Some a) True True = (STATUS_NOT_FOUND, None, None, w)) \<and>
         (arp_find_entry (g_arp_table w) a = None \<longrightarrow>
            arp_allocate_entry (g_arp_table w) = None \<longrightarrow>
            arp_lookup pl w (Some a) True True = (STATUS_RESOURCE_EXHAUSTED, None, None, w)) \<and>
         (\<forall>t1. arp_find_entry (g_arp_table w) a = None \<longrightarrow>
            arp_allocate_entry (g_arp_table w) = Some t1 \<longrightarrow>
            (\<exists>w'. arp_lookup pl w (Some a) True True = (ARP_STATUS_PENDING, None, None, w') \<and>
               hash_table (g_arp_table w') =
                 hash_table (chain_insert t1 (incomplete_entry a (time_counter w))) \<and>
               entry_count (g_arp_table w') = entry_count t1 + 1 \<and>
               arp_find_entry (g_arp_table w') a = Some (incomplete_entry a (time_counter w)) \<and>
               requests_sent (stats (g_arp_table w')) =
                 requests_sent (stats (g_arp_table w)) + 1 \<and>
               (transmitted w' = transmitted w \<or>
                transmitted w' = transmitted w @ [(0, arp_request_frame pl a)]) \<and>
               (link_ready pl w 0 \<longrightarrow>
                  transmitted w' = transmitted w @ [(0, arp_request_frame pl a)])))"
proof -
  have 1: "\<forall>e. arp_find_entry (g_arp_table w) a = Some e \<longrightarrow> state e = ARP_STATE_REACHABLE \<longrightarrow>
            arp_lookup pl w (Some a) True True =
              (STATUS_SUCCESS, Some (mac e), Some (port_index e),
               w\<lparr> g_arp_table := (g_arp_table w)
                     \<lparr> stats := (stats (g_arp_table w))
                          \<lparr> cache_hits := cache_hits (stats (g_arp_table w)) + 1 \<rparr> \<rparr> \<rparr>)"
    using init by (simp add: arp_lookup_def)
  have 2: "\<forall>e. arp_find_entry (g_arp_table w) a = Some e \<longrightarrow> state e = ARP_STATE_INCOMPLETE \<longrightarrow>
            arp_lookup pl w (Some a) True True = (ARP_STATUS_PENDING, None, None, w)"
    using init by (simp add: arp_lookup_def)
  have 3: "\<forall>e. arp_find_entry (g_arp_table w) a = Some e \<longrightarrow> state e = ARP_STATE_FAILED \<longrightarrow>
            arp_lookup pl w (Some a) True True = (STATUS_NOT_FOUND, None, None, w)"
    using init by (simp add: arp_lookup_def)
  have 4: "arp_find_entry (g_arp_table w) a = None \<longrightarrow>
            arp_allocate_entry (g_arp_table w) = None \<longrightarrow>
            arp_lookup pl w (Some a) True True = (STATUS_RESOURCE_EXHAUSTED, None, None, w)"
    using arp_lookup_full [OF init] by blast
  have 5: "\<forall>t1. arp_find_entry (g_arp_table w) a = None \<longrightarrow>
            arp_allocate_entry (g_arp_table w) = Some t1 \<longrightarrow>
            (\<exists>w'. arp_lookup pl w (Some a) True True = (ARP_STATUS_PENDING, None, None, w') \<and>
               hash_table (g_arp_table w') =
                 hash_table (chain_insert t1 (incomplete_entry a (time_counter w))) \<and>
               entry_count (g_arp_table w') = entry_count t1 + 1 \<and>
               arp_find_entry (g_arp_table w') a = Some (incomplete_entry a (time_counter w)) \<and>
               requests_sent (stats (g_arp_table w')) =
                 requests_sent (stats (g_arp_table w)) + 1 \<and>
               (transmitted w' = transmitted w \<or>
                transmitted w' = transmitted w @ [(0, arp_request_frame pl a)]) \<and>
               (link_ready pl w 0 \<longrightarrow>
                  transmitted w' = transmitted w @ [(0, arp_request_frame pl a)]))"
    using arp_lookup_absent [OF init, of a _ pl True] by blast
  from 1 2 3 4 5 show ?thesis by (intro conjI)
qed

text \<open>
  The four cases on sample caches: a Reachable, an Incomplete and a Failed entry for the
  neighbour, and the empty cache with port 0 up.
\<close>

theorem arp_lookup_by_state_witness:
  "initialized (g_arp_table (demo_cache ARP_STATE_REACHABLE)) \<and>
   arp_find_entry (g_arp_table (demo_cache ARP_STATE_REACHABLE)) demo_ip =
     Some (demo_entry ARP_STATE_REACHABLE) \<and>
   state (demo_entry ARP_STATE_REACHABLE) = ARP_STATE_REACHABLE \<and>
   fst (arp_lookup demo_platform (demo_cache ARP_STATE_REACHABLE) (Some demo_ip) True True) =
     STATUS_SUCCESS \<and>
   fst (snd (arp_lookup demo_platform (demo_cache ARP_STATE_REACHABLE) (Some demo_ip) True True)) =
     Some demo_mac \<and>
   fst (snd (snd
     (arp_lookup demo_platform (demo_cache ARP_STATE_REACHABLE) (Some demo_ip) True True))) =
     Some 3 \<and>
   arp_lookup demo_platform (demo_cache ARP_STATE_INCOMPLETE) (Some demo_ip) True True =
     (ARP_STATUS_PENDING, None, None, demo_cache ARP_STATE_INCOMPLETE) \<and>
   arp_lookup demo_platform (demo_cache ARP_STATE_FAILED) (Some demo_ip) True True =
     (STATUS_NOT_FOUND, None, None, demo_cache ARP_STATE_FAILED) \<and>
   initialized (g_arp_table demo_arp_world) \<and>
   arp_find_entry (g_arp_table demo_arp_world) demo_ip = None \<and>
   arp_allocate_entry (g_arp_table demo_arp_world) = Some arp_init_table \<and>
   link_ready demo_platform demo_arp_world 0 \<and>
   (\<exists>w'. arp_lookup demo_platform demo_arp_world (Some demo_ip) True True =
            (ARP_STATUS_PENDING, None, None, w') \<and>
         arp_find_entry (g_arp_table w') demo_ip = Some (incomplete_entry demo_ip 0) \<and>
         requests_sent (stats (g_arp_table w')) = 1 \<and>
         transmitted w' = [(0, arp_request_frame demo_platform demo_ip)])"
proof -
  note r = demo_cache_entry [of ARP_STATE_REACHABLE]
  note i = demo_cache_entry [of ARP_STATE_INCOMPLETE]
  note f = demo_cache_entry [of ARP_STATE_FAILED]
  have st: "state (demo_entry s) = s" "mac (demo_entry s) = demo_mac"
    "port_index (demo_entry s) = 3" for s
    by (simp_all add: demo_entry_def)
  from arp_lookup_by_state [of "demo_cache ARP_STATE_REACHABLE" demo_ip demo_platform] r st
  have a: "fst (arp_lookup demo_platform (demo_cache ARP_STATE_REACHABLE) (Some demo_ip)
                  True True) = STATUS_SUCCESS \<and>
    fst (snd (arp_lookup demo_platform (demo_cache ARP_STATE_REACHABLE) (Some demo_ip)
                  True True)) = Some demo_mac \<and>
    fst (snd (snd (arp_lookup demo_platform (demo_cache ARP_STATE_REACHABLE) (Some demo_ip)
                  True True))) = Some 3"
    by simp
  from arp_lookup_by_state [of "demo_cache ARP_STATE_INCOMPLETE" demo_ip demo_platform] i st
  have b: "arp_lookup demo_platform (demo_cache ARP_STATE_INCOMPLETE) (Some demo_ip) True True =
     (ARP_STATUS_PENDING, None, None, demo_cache ARP_STATE_INCOMPLETE)"
    by simp
  from arp_lookup_by_state [of "demo_cache ARP_STATE_FAILED" demo_ip demo_platform] f st
  have c: "arp_lookup demo_platform (demo_cache ARP_STATE_FAILED) (Some demo_ip) True True =
     (STATUS_NOT_FOUND, None, None, demo_cache ARP_STATE_FAILED)"
    by simp
  have z: "time_counter demo_arp_world = 0" "transmitted demo_arp_world = []"
    "requests_sent (stats (g_arp_table demo_arp_world)) = 0"
    by (simp_all add: demo_arp_world_def arp_init_table_def zero_stats_def)
  from arp_lookup_by_state [of demo_arp_world demo_ip demo_platform]
    demo_world_absent demo_link_ready
  have d: "\<exists>w'. arp_lookup demo_platform demo_arp_world (Some demo_ip) True True =
            (ARP_STATUS_PENDING, None, None, w') \<and>
         arp_find_entry (g_arp_table w') demo_ip = Some (incomplete_entry demo_ip 0) \<and>
         requests_sent (stats (g_arp_table w')) = 1 \<and>
         transmitted w' = [(0, arp_request_frame demo_platform demo_ip)]"
    by (auto simp: z)
  from r st a b c demo_world_absent demo_link_ready d show ?thesis by simp
qed

text \<open>
  Where the request cannot leave, none is emitted: with port 0 down, the
  lookup of an absent address answers Pending and counts a request sent, and
  \<^verbatim>\<open>packet_transmit\<close> has refused the frame, so none is emitted.
\<close>

theorem request_not_emitted_when_port_down:
  "initialized (g_arp_table demo_arp_world) \<and>
   arp_find_entry (g_arp_table demo_arp_world) demo_ip = None \<and>
   fst (arp_lookup port_down_platform demo_arp_world (Some demo_ip) True True) =
     ARP_STATUS_PENDING \<and>
   requests_sent (stats (g_arp_table (snd (snd (snd
     (arp_lookup port_down_platform demo_arp_world (Some demo_ip) True True)))))) = 1 \<and>
   transmitted (snd (snd (snd
     (arp_lookup port_down_platform demo_arp_world (Some demo_ip) True True)))) = []"
proof -
  have tx: "arp_send_request port_down_platform w a 0 = (STATUS_RESOURCE_UNAVAILABLE, w)"
    if "g_initialized (packet_state w)" for w a
    using that
    by (simp add: arp_send_request_def port_down_platform_def demo_platform_def Let_def
          packet_buffer_alloc_def malloc_def demo_heap_def packet_transmit_def
          packet_buffer_is_valid_def sizeof_ethernet_header_t_def)
  have "g_initialized (packet_state demo_arp_world)"
    by (simp add: demo_arp_world_def demo_globals_def)
  then show ?thesis
    using demo_world_absent
    by (simp add: arp_lookup_def get_current_time_def tx)
       (simp add: demo_arp_world_def arp_init_table_def zero_stats_def chain_insert_def)
qed

lemma demo_request_view: "arp_packet_view demo_request_bytes = demo_request"
  by (simp add: arp_packet_view_def demo_request_bytes_def demo_request_def host16_def
        host32_def htons_def demo_mac_def demo_ip_def demo_platform_def
        ARP_HARDWARE_TYPE_ETHERNET_def ARP_PROTOCOL_TYPE_IPV4_def
        ARP_HARDWARE_SIZE_ETHERNET_def ARP_PROTOCOL_SIZE_IPV4_def ARP_OP_REQUEST_def)

text \<open>A frame shorter than the structure is refused before anything is read or learned.\<close>

lemma short_frame_refused:
  assumes "initialized (g_arp_table w)" and "size_p p < sizeof_arp_packet_t pl"
  shows "arp_handle_frame pl w (Some p) = Returns (STATUS_INVALID_PACKET, bump_invalid w)"
  using assms by (simp add: arp_handle_frame_def arp_process_packet_def)

text \<open>
  Claim C5 holds for the learning and fails on the code for the reply. Take a frame
  whose size passes the test against \<^verbatim>\<open>sizeof(arp_packet_t)\<close> and whose data block holds
  the 32 bytes of the structure, a request whose fields pass the validation, on an
  initialised table with room for the sender. Then \<^verbatim>\<open>arp_handle_frame\<close> returns
  \<^verbatim>\<open>STATUS_SUCCESS\<close> and the cache holds the sender's address as a Reachable entry with
  the sender's MAC and the ingress port. But whatever the target address is, the local
  address included, nothing is handed to the port layer and \<^verbatim>\<open>replies_sent\<close> stays as
  it was: the flag \<^verbatim>\<open>is_our_ip\<close> is the constant \<^verbatim>\<open>false\<close>, under the comment that it
  should check against our interfaces.
\<close>

theorem handle_frame_learns_but_never_replies:
  assumes init: "initialized (g_arp_table w)"
    and frame: "data p = Some blk" "32 \<le> length blk"
    and size: "sizeof_arp_packet_t pl \<le> size_p p"
    and valid: "ntohs (hw_type (arp_packet_view blk)) = ARP_HARDWARE_TYPE_ETHERNET"
      "ntohs (protocol_type (arp_packet_view blk)) = ARP_PROTOCOL_TYPE_IPV4"
      "hw_addr_len (arp_packet_view blk) = ARP_HARDWARE_SIZE_ETHERNET"
      "proto_addr_len (arp_packet_view blk) = ARP_PROTOCOL_SIZE_IPV4"
    and request: "ntohs (operation (arp_packet_view blk)) = ARP_OP_REQUEST"
    and room: "arp_find_entry (g_arp_table w) (sender_ip (arp_packet_view blk)) \<noteq> None \<or>
               arp_allocate_entry (g_arp_table w) \<noteq> None"
  shows "\<exists>w'. arp_handle_frame pl w (Some p) = Returns (STATUS_SUCCESS, w') \<and>
           (\<exists>e. arp_find_entry (g_arp_table w') (sender_ip (arp_packet_view blk)) = Some e \<and>
                 mac e = sender_mac (arp_packet_view blk) \<and>
                 port_index e = port (metadata p) \<and>
                 state e = ARP_STATE_REACHABLE) \<and>
           requests_received (stats (g_arp_table w')) =
             requests_received (stats (g_arp_table w)) + 1 \<and>
           port_sent w' = port_sent w \<and> transmitted w' = transmitted w \<and>
           replies_sent (stats (g_arp_table w')) = replies_sent (stats (g_arp_table w))"
proof -
  define view where "view = arp_packet_view blk"
  from add_entry_learns [OF init room, of "sender_mac view" "port (metadata p)"]
  obtain w1 e where
    add: "arp_add_entry w (Some (sender_ip view)) (Some (sender_mac view)) (port (metadata p)) =
            (STATUS_SUCCESS, w1)"
    and e: "arp_find_entry (g_arp_table w1) (sender_ip view) = Some e" "mac e = sender_mac view"
      "port_index e = port (metadata p)" "state e = ARP_STATE_REACHABLE"
    and keep: "port_sent w1 = port_sent w" "transmitted w1 = transmitted w"
      "replies_sent (stats (g_arp_table w1)) = replies_sent (stats (g_arp_table w))"
      "requests_received (stats (g_arp_table w1)) = requests_received (stats (g_arp_table w))"
    unfolding view_def by blast
  have "arp_process_fields pl w view (port (metadata p)) =
          (STATUS_SUCCESS,
            w1\<lparr> g_arp_table := (g_arp_table w1)
                  \<lparr> stats := (stats (g_arp_table w1))
                       \<lparr> requests_received :=
                           requests_received (stats (g_arp_table w1)) + 1 \<rparr> \<rparr> \<rparr>)"
    using valid request add
    by (simp add: arp_process_fields_def is_our_ip_def Let_def view_def)
  then have "arp_handle_frame pl w (Some p) =
          Returns (STATUS_SUCCESS,
            w1\<lparr> g_arp_table := (g_arp_table w1)
                  \<lparr> stats := (stats (g_arp_table w1))
                       \<lparr> requests_received :=
                           requests_received (stats (g_arp_table w1)) + 1 \<rparr> \<rparr> \<rparr>)"
    using init frame size
    by (simp add: arp_handle_frame_def arp_process_packet_def not_less view_def)
  then show ?thesis
    using e keep by (simp add: arp_find_entry_def view_def)
qed

text \<open>
  A request from the neighbour for the local address, 32 bytes in the layout of the
  structure, received by the empty cache: the neighbour is learned and no reply is sent.
\<close>

theorem handle_frame_learns_but_never_replies_witness:
  "initialized (g_arp_table demo_arp_world) \<and>
   data demo_frame = Some demo_request_bytes \<and>
   length demo_request_bytes = 32 \<and>
   sizeof_arp_packet_t demo_platform = 32 \<and>
   size_p demo_frame = 32 \<and>
   arp_packet_view demo_request_bytes = demo_request \<and>
   ntohs (hw_type demo_request) = ARP_HARDWARE_TYPE_ETHERNET \<and>
   ntohs (protocol_type demo_request) = ARP_PROTOCOL_TYPE_IPV4 \<and>
   hw_addr_len demo_request = ARP_HARDWARE_SIZE_ETHERNET \<and>
   proto_addr_len demo_request = ARP_PROTOCOL_SIZE_IPV4 \<and>
   ntohs (operation demo_request) = ARP_OP_REQUEST \<and>
   sender_ip demo_request = demo_ip \<and>
   target_ip demo_request = our_ip_local demo_platform \<and>
   arp_allocate_entry (g_arp_table demo_arp_world) = Some arp_init_table \<and>
   (\<exists>w'. arp_handle_frame demo_platform demo_arp_world (Some demo_frame) =
            Returns (STATUS_SUCCESS, w') \<and>
         (\<exists>e. arp_find_entry (g_arp_table w') demo_ip = Some e \<and>
               mac e = demo_mac \<and> port_index e = 2 \<and> state e = ARP_STATE_REACHABLE) \<and>
         port_sent w' = [] \<and> transmitted w' = [] \<and>
         replies_sent (stats (g_arp_table w')) = 0)"
proof -
  have f: "data demo_frame = Some demo_request_bytes" "size_p demo_frame = 32"
    "port (metadata demo_frame) = 2" "sizeof_arp_packet_t demo_platform = 32"
    by (simp_all add: demo_frame_def demo_platform_def)
  have l: "length demo_request_bytes = 32" by (simp add: demo_request_bytes_def)
  have l': "32 \<le> length demo_request_bytes" by (simp add: l)
  have sz: "sizeof_arp_packet_t demo_platform \<le> size_p demo_frame" by (simp add: f)
  have v: "ntohs (hw_type demo_request) = ARP_HARDWARE_TYPE_ETHERNET"
    "ntohs (protocol_type demo_request) = ARP_PROTOCOL_TYPE_IPV4"
    "hw_addr_len demo_request = ARP_HARDWARE_SIZE_ETHERNET"
    "proto_addr_len demo_request = ARP_PROTOCOL_SIZE_IPV4"
    "ntohs (operation demo_request) = ARP_OP_REQUEST"
    by (simp_all add: demo_request_def ntohs_def htons_def
          ARP_HARDWARE_TYPE_ETHERNET_def ARP_PROTOCOL_TYPE_IPV4_def ARP_OP_REQUEST_def)
  have t: "target_ip demo_request = our_ip_local demo_platform"
    "sender_ip demo_request = demo_ip" "sender_mac demo_request = demo_mac"
    by (simp_all add: demo_request_def)
  have z: "port_sent demo_arp_world = []" "transmitted demo_arp_world = []"
    "replies_sent (stats (g_arp_table demo_arp_world)) = 0"
    by (simp_all add: demo_arp_world_def arp_init_table_def zero_stats_def)
  have room: "arp_find_entry (g_arp_table demo_arp_world)
                (sender_ip (arp_packet_view demo_request_bytes)) \<noteq> None \<or>
              arp_allocate_entry (g_arp_table demo_arp_world) \<noteq> None"
    using demo_world_absent by simp
  from handle_frame_learns_but_never_replies
    [of demo_arp_world demo_frame demo_request_bytes demo_platform,
     OF _ f(1) l' sz v [folded demo_request_view] room]
    demo_world_absent
  have "\<exists>w'. arp_handle_frame demo_platform demo_arp_world (Some demo_frame) =
            Returns (STATUS_SUCCESS, w') \<and>
         (\<exists>e. arp_find_entry (g_arp_table w') demo_ip = Some e \<and>
               mac e = demo_mac \<and> port_index e = 2 \<and> state e = ARP_STATE_REACHABLE) \<and>
         port_sent w' = [] \<and> transmitted w' = [] \<and>
         replies_sent (stats (g_arp_table w')) = 0"
    by (auto simp: demo_request_view t z f)
  with f l v t demo_world_absent demo_request_view show ?thesis by simp
qed
end
